theory Spec2Isabelle
  imports Main
begin

unbundle bit_operations_syntax

section \<open>The platform the program is compiled against\<close>

text \<open>
  \<^verbatim>\<open>nfs-mountpoint-check.c\<close> uses constants of the system headers
  (\<^verbatim>\<open>errno.h\<close>, \<^verbatim>\<open>signal.h\<close>, \<^verbatim>\<open>limits.h\<close>) whose values are not part of
  the repository. They are parameters of the model: every function below that needs one takes
  the platform as its first argument.
\<close>

record platform =
  EINTR :: int
  EINVAL :: int
  ERANGE :: int
  ETIMEDOUT :: int
  SIGKILL :: int
  INT_MIN :: int
  INT_MAX :: int
  LONG_MIN :: int
  LONG_MAX :: int

text \<open>The values of these constants on Linux with 64-bit \<^verbatim>\<open>long\<close>, used for concrete runs.\<close>

definition linux_lp64 :: platform where
  "linux_lp64 =
     \<lparr>EINTR = 4, EINVAL = 22, ERANGE = 34, ETIMEDOUT = 110, SIGKILL = 9,
      INT_MIN = - 2147483648, INT_MAX = 2147483647,
      LONG_MIN = - 9223372036854775808, LONG_MAX = 9223372036854775807\<rparr>"

text \<open>
  Modelled from the spec: a failure code is ``a system-defined failure number in range
  [1,254]''; the header that defines the numbers is not under \<^verbatim>\<open>src/\<close>.
\<close>

definition system_errno :: "int \<Rightarrow> bool" where
  "system_errno e = (1 \<le> e \<and> e \<le> 254)"

text \<open>
  What the C standard and POSIX promise of the parameters: the four error numbers are
  system failure numbers, \<^verbatim>\<open>int\<close> reaches at least from -32767 to 32767 and \<^verbatim>\<open>long\<close>
  is at least as wide as \<^verbatim>\<open>int\<close>.
\<close>

definition posix_platform :: "platform \<Rightarrow> bool" where
  "posix_platform pf =
     (system_errno (EINTR pf) \<and> system_errno (EINVAL pf) \<and> system_errno (ERANGE pf) \<and>
      system_errno (ETIMEDOUT pf) \<and>
      INT_MIN pf \<le> - 32767 \<and> 32767 \<le> INT_MAX pf \<and>
      LONG_MIN pf \<le> INT_MIN pf \<and> INT_MAX pf \<le> LONG_MAX pf)"

section \<open>Constants of the source\<close>

text \<open>\<^verbatim>\<open>#define ERRNO_MAX 256\<close> (``Maximum errno'').\<close>

definition ERRNO_MAX :: int where
  "ERRNO_MAX = 256"

text \<open>\<^verbatim>\<open>static const int EUNKNOWN = 255;\<close>\<close>

definition EUNKNOWN :: int where
  "EUNKNOWN = 255"

text \<open>\<^verbatim>\<open>static const int CHECK_METHOD_STAT = 0x1;\<close> and \<^verbatim>\<open>CHECK_METHOD_READDIR = 0x2;\<close>\<close>

definition CHECK_METHOD_STAT :: int where
  "CHECK_METHOD_STAT = 1"

definition CHECK_METHOD_READDIR :: int where
  "CHECK_METHOD_READDIR = 2"

section \<open>The process and the operating system\<close>

text \<open>
  Every call the program makes into the kernel or the C library that the properties below
  observe is recorded, in order, in the trace of the process. The logging functions
  (\<^verbatim>\<open>error\<close>, \<^verbatim>\<open>verbose\<close>, \<^verbatim>\<open>debug\<close>) only write to standard output; they are left
  out, and with them any change they could make to \<^verbatim>\<open>errno\<close>. The source saves
  \<^verbatim>\<open>errno\<close> before it logs wherever it returns the value.
\<close>

datatype call =
    Open string
  | Fstat int
  | Close int
  | Opendir string
  | Readdir int
  | Closedir int
  | Alarm int
  | Waitpid int
  | Kill int int
  | Sigaction
  | Geteuid
  | Fork

text \<open>
  A call that reports failure by a negative return value (or a null pointer) and sets
  \<^verbatim>\<open>errno\<close>, or succeeds with a value.
\<close>

datatype sysres = Fail int | Ok int

text \<open>
  \<^verbatim>\<open>readdir\<close> returns a null pointer both on failure, setting \<^verbatim>\<open>errno\<close>, and at the end
  of the directory stream, leaving \<^verbatim>\<open>errno\<close> as it was.
\<close>

datatype readdir_res = Entry | EndOfDir | ReadFail int

text \<open>
  Modelled from the spec: the wait status reported by \<^verbatim>\<open>waitpid\<close> is read only through
  the macros of \<^verbatim>\<open>sys/wait.h\<close>, which are not under \<^verbatim>\<open>src/\<close>. The spec distinguishes a
  Worker that exited normally with a code, one terminated by a signal, and one stopped or
  resumed. \<open>Exited n\<close> carries the value the child passed to \<^verbatim>\<open>exit\<close>.
\<close>

datatype wstatus = Exited int | Signaled int | Stopped int | Continued

fun WIFEXITED :: "wstatus \<Rightarrow> bool" where
  "WIFEXITED (Exited n) = True"
| "WIFEXITED _ = False"

text \<open>The low-order eight bits of the value passed to \<^verbatim>\<open>exit\<close>.\<close>

fun WEXITSTATUS :: "wstatus \<Rightarrow> int" where
  "WEXITSTATUS (Exited n) = n mod 256"
| "WEXITSTATUS _ = 0"

fun WIFSIGNALED :: "wstatus \<Rightarrow> bool" where
  "WIFSIGNALED (Signaled s) = True"
| "WIFSIGNALED _ = False"

fun WTERMSIG :: "wstatus \<Rightarrow> int" where
  "WTERMSIG (Signaled s) = s"
| "WTERMSIG _ = 0"

fun WIFSTOPPED :: "wstatus \<Rightarrow> bool" where
  "WIFSTOPPED (Stopped s) = True"
| "WIFSTOPPED _ = False"

fun WIFCONTINUED :: "wstatus \<Rightarrow> bool" where
  "WIFCONTINUED Continued = True"
| "WIFCONTINUED _ = False"

datatype waitpid_res = WaitFail int | WaitOk wstatus

text \<open>
  How the process ends when it does not return: \<^verbatim>\<open>exit\<close>, \<^verbatim>\<open>_exit\<close>, \<^verbatim>\<open>abort\<close>, an
  access to \<^verbatim>\<open>exitcode_map\<close> outside the array, or a null pointer handed to \<^verbatim>\<open>strtol\<close>
  or \<^verbatim>\<open>strtok\<close>. C leaves the behaviour of the last two undefined.
\<close>

datatype halt = Exit int | UExit int | Abort | OutOfBounds int | NullPointer

text \<open>The answers of the operating system to the calls of one run.\<close>

record os =
  os_open :: "string \<Rightarrow> sysres"
  os_fstat :: "int \<Rightarrow> sysres"
  os_close :: "int \<Rightarrow> sysres"
  os_opendir :: "string \<Rightarrow> sysres"
  os_readdir :: "int \<Rightarrow> readdir_res"
  os_closedir :: "int \<Rightarrow> sysres"
  os_kill :: "int \<Rightarrow> int \<Rightarrow> sysres"
  os_geteuid :: int
  os_sigaction :: sysres
  os_fork :: sysres

text \<open>
  The globals of the program (\<^verbatim>\<open>errno\<close>, \<^verbatim>\<open>child\<close>, \<^verbatim>\<open>verbosity\<close>), the pending alarm
  of the process (0 when none is armed), the trace of its calls, and the place where
  \<^verbatim>\<open>strtok\<close> resumes scanning (a null pointer, \<open>None\<close>, before its first call).
\<close>

record world =
  errno :: int
  child :: int
  verbosity :: int
  timer :: int
  trace :: "call list"
  strtok_save :: "string option"

text \<open>The state in which \<^verbatim>\<open>main\<close> starts: \<^verbatim>\<open>verbosity = 1\<close>, \<^verbatim>\<open>child = 0\<close>.\<close>

definition initial_world :: world where
  "initial_world =
     \<lparr>errno = 0, child = 0, verbosity = 1, timer = 0, trace = [], strtok_save = None\<rparr>"

text \<open>A call is recorded; a failing call stores its error number in \<^verbatim>\<open>errno\<close>.\<close>

definition syscall :: "call \<Rightarrow> sysres \<Rightarrow> world \<Rightarrow> sysres \<times> world" where
  "syscall c r w =
     (r, w\<lparr>errno := (case r of Fail e \<Rightarrow> e | Ok v \<Rightarrow> errno w), trace := trace w @ [c]\<rparr>)"

definition sys_readdir :: "os \<Rightarrow> int \<Rightarrow> world \<Rightarrow> readdir_res \<times> world" where
  "sys_readdir os dirp w =
     (let r = os_readdir os dirp
      in (r, w\<lparr>errno := (case r of ReadFail e \<Rightarrow> e | _ \<Rightarrow> errno w),
               trace := trace w @ [Readdir dirp]\<rparr>))"

text \<open>
  \<^verbatim>\<open>alarm(seconds)\<close>: replaces the pending alarm; \<^verbatim>\<open>alarm(0)\<close> cancels it. The
  argument is recorded as the \<^verbatim>\<open>int\<close> the source passes; its conversion to
  \<^verbatim>\<open>unsigned\<close>, which keeps 0 and only 0 at 0, is not carried out.
\<close>

definition alarm :: "int \<Rightarrow> world \<Rightarrow> world" where
  "alarm seconds w = w\<lparr>timer := seconds, trace := trace w @ [Alarm seconds]\<rparr>"

section \<open>The probes\<close>

text \<open>
  \<^verbatim>\<open>check_mountpoint_readdir\<close>: \<^verbatim>\<open>opendir\<close>, one \<^verbatim>\<open>readdir\<close>, \<^verbatim>\<open>closedir\<close>. Each
  failure branch saves \<^verbatim>\<open>errno\<close> first and returns the saved value.
\<close>

definition check_mountpoint_readdir :: "os \<Rightarrow> string \<Rightarrow> world \<Rightarrow> int \<times> world" where
  "check_mountpoint_readdir os path w =
     (case syscall (Opendir path) (os_opendir os path) w of
        (Fail e, w1) \<Rightarrow> (let errsave = errno w1 in (errsave, w1))
      | (Ok dirp, w1) \<Rightarrow>
          (case sys_readdir os dirp w1 of
             (Entry, w2) \<Rightarrow>
               (case syscall (Closedir dirp) (os_closedir os dirp) w2 of
                  (Fail e, w3) \<Rightarrow> (let errsave = errno w3 in (errsave, w3))
                | (Ok v, w3) \<Rightarrow> (0, w3))
           | (r, w2) \<Rightarrow>
               (let errsave = errno w2;
                    (r', w3) = syscall (Closedir dirp) (os_closedir os dirp) w2
                in (errsave, w3))))"

text \<open>
  \<^verbatim>\<open>check_mountpoint_stat\<close>: \<^verbatim>\<open>open\<close>, \<^verbatim>\<open>fstat\<close>, \<^verbatim>\<open>close\<close>. When \<^verbatim>\<open>fstat\<close> fails
  the descriptor is closed before the saved error number is returned.
\<close>

definition check_mountpoint_stat :: "os \<Rightarrow> string \<Rightarrow> world \<Rightarrow> int \<times> world" where
  "check_mountpoint_stat os path w =
     (case syscall (Open path) (os_open os path) w of
        (Fail e, w1) \<Rightarrow> (let errsave = errno w1 in (errsave, w1))
      | (Ok fd, w1) \<Rightarrow>
          (case syscall (Fstat fd) (os_fstat os fd) w1 of
             (Fail e, w2) \<Rightarrow>
               (let errsave = errno w2;
                    (r', w3) = syscall (Close fd) (os_close os fd) w2
                in (errsave, w3))
           | (Ok v, w2) \<Rightarrow>
               (case syscall (Close fd) (os_close os fd) w2 of
                  (Fail e, w3) \<Rightarrow> (let errsave = errno w3 in (errsave, w3))
                | (Ok v', w3) \<Rightarrow> (0, w3))))"

text \<open>
  \<^verbatim>\<open>check_mountpoint\<close>: \<^verbatim>\<open>ret\<close> starts at 0; each selected probe assigns it and a
  nonzero value is returned at once.
\<close>

definition check_mountpoint :: "os \<Rightarrow> string \<Rightarrow> int \<Rightarrow> world \<Rightarrow> int \<times> world" where
  "check_mountpoint os path check_method w =
     (let (ret, w1) =
            (if check_method AND CHECK_METHOD_STAT \<noteq> 0
             then check_mountpoint_stat os path w else (0, w))
      in if check_method AND CHECK_METHOD_STAT \<noteq> 0 \<and> ret \<noteq> 0 then (ret, w1)
         else if check_method AND CHECK_METHOD_READDIR \<noteq> 0
         then (let (ret', w2) = check_mountpoint_readdir os path w1
               in if ret' \<noteq> 0 then (ret', w2) else (ret', w2))
         else (ret, w1))"

section \<open>The Supervisor\<close>

text \<open>
  The \<^verbatim>\<open>while (1)\<close> loop of \<^verbatim>\<open>wait_for_child\<close>. The list holds what the successive
  calls of \<^verbatim>\<open>waitpid\<close> return; when it is used up the next call never returns, and
  neither does the loop (\<open>None\<close>). A failure other than \<^verbatim>\<open>EINTR\<close> ends the process with
  \<^verbatim>\<open>exit(1)\<close>.
\<close>

fun waitpid_loop ::
  "platform \<Rightarrow> waitpid_res list \<Rightarrow> world \<Rightarrow> ((halt + wstatus) \<times> world) option" where
  "waitpid_loop pf [] w = None"
| "waitpid_loop pf (WaitFail e # rs) w =
     (let w1 = w\<lparr>errno := e, trace := trace w @ [Waitpid (child w)]\<rparr>
      in if errno w1 = EINTR pf then waitpid_loop pf rs w1
         else Some (Inl (Exit 1), w1))"
| "waitpid_loop pf (WaitOk status # rs) w =
     Some (Inr status, w\<lparr>trace := trace w @ [Waitpid (child w)]\<rparr>)"

text \<open>
  \<^verbatim>\<open>wait_for_child\<close>: arm the alarm, wait, cancel the alarm, then the chain of tests on
  the wait status, in the order of the source.
\<close>

definition wait_for_child ::
  "platform \<Rightarrow> int \<Rightarrow> waitpid_res list \<Rightarrow> world \<Rightarrow> ((halt + int) \<times> world) option" where
  "wait_for_child pf timeout ws w =
     (case waitpid_loop pf ws (alarm timeout w) of
        None \<Rightarrow> None
      | Some (Inl h, w1) \<Rightarrow> Some (Inl h, w1)
      | Some (Inr status, w1) \<Rightarrow>
          (let w2 = alarm 0 w1
           in Some (Inr (if WIFEXITED status then WEXITSTATUS status
                         else if WIFSIGNALED status
                         then (if WTERMSIG status = SIGKILL pf then ETIMEDOUT pf else EUNKNOWN)
                         else if WIFSTOPPED status then EUNKNOWN
                         else if WIFCONTINUED status then EUNKNOWN
                         else EUNKNOWN), w2)))"

text \<open>
  \<^verbatim>\<open>handle_sigalrm\<close>: nothing when \<^verbatim>\<open>child <= 0\<close>; otherwise \<^verbatim>\<open>kill(child, SIGKILL)\<close>,
  and \<^verbatim>\<open>_exit(EUNKNOWN)\<close> when that fails.
\<close>

definition handle_sigalrm :: "platform \<Rightarrow> os \<Rightarrow> world \<Rightarrow> (halt + unit) \<times> world" where
  "handle_sigalrm pf os w =
     (if child w \<le> 0 then (Inr (), w)
      else (case syscall (Kill (child w) (SIGKILL pf)) (os_kill os (child w) (SIGKILL pf)) w of
              (Fail e, w1) \<Rightarrow> (Inl (UExit EUNKNOWN), w1)
            | (Ok v, w1) \<Rightarrow> (Inr (), w1)))"

text \<open>
  Modelled from the spec: the operations ``safe to call from an asynchronous signal
  context'' are the list of \<^verbatim>\<open>signal-safety(7)\<close>, which the comment of \<^verbatim>\<open>handle_sigalrm\<close>
  refers to and which is not under \<^verbatim>\<open>src/\<close>. Of the calls of this program the directory
  stream functions are not on it, and of the ways to end the process \<^verbatim>\<open>_exit\<close> and
  \<^verbatim>\<open>abort\<close> are on it while \<^verbatim>\<open>exit\<close> is not.
\<close>

fun async_signal_safe :: "call \<Rightarrow> bool" where
  "async_signal_safe (Opendir p) = False"
| "async_signal_safe (Readdir d) = False"
| "async_signal_safe (Closedir d) = False"
| "async_signal_safe c = True"

fun async_signal_safe_halt :: "halt \<Rightarrow> bool" where
  "async_signal_safe_halt (UExit n) = True"
| "async_signal_safe_halt Abort = True"
| "async_signal_safe_halt h = False"

section \<open>C library functions on strings\<close>

text \<open>
  \<^verbatim>\<open>isspace\<close>, \<^verbatim>\<open>isdigit\<close> and \<^verbatim>\<open>tolower\<close> in the C locale, on the code of the
  character.
\<close>

definition isspace :: "char \<Rightarrow> bool" where
  "isspace c = (of_char c = (32::nat) \<or> (9 \<le> (of_char c :: nat) \<and> (of_char c :: nat) \<le> 13))"

definition isdigit :: "char \<Rightarrow> bool" where
  "isdigit c = (48 \<le> (of_char c :: nat) \<and> (of_char c :: nat) \<le> 57)"

definition tolower :: "char \<Rightarrow> char" where
  "tolower c =
     (if 65 \<le> (of_char c :: nat) \<and> (of_char c :: nat) \<le> 90
      then char_of ((of_char c :: nat) + 32) else c)"

text \<open>The value of a string of decimal digits.\<close>

definition digits_value :: "string \<Rightarrow> int" where
  "digits_value ds = foldl (\<lambda>acc c. 10 * acc + (int (of_char c) - 48)) 0 ds"

text \<open>
  \<^verbatim>\<open>strtol(s, &end, 10)\<close>: white space, an optional sign, decimal digits. The result is
  the value and the offset \<^verbatim>\<open>end - s\<close>. Without a digit nothing is converted and
  \<^verbatim>\<open>end\<close> is \<^verbatim>\<open>s\<close>; a value outside \<^verbatim>\<open>long\<close> is clamped and \<^verbatim>\<open>errno\<close> becomes
  \<^verbatim>\<open>ERANGE\<close>; otherwise \<^verbatim>\<open>errno\<close> is left as it was.
\<close>

definition strtol :: "platform \<Rightarrow> string \<Rightarrow> world \<Rightarrow> (int \<times> nat) \<times> world" where
  "strtol pf s w =
     (let t = dropWhile isspace s;
          neg = (t \<noteq> [] \<and> hd t = CHR ''-'');
          u = (if t \<noteq> [] \<and> (hd t = CHR ''-'' \<or> hd t = CHR ''+'') then tl t else t);
          ds = takeWhile isdigit u;
          v = (if neg then - digits_value ds else digits_value ds);
          end_off = length s - length u + length ds
      in if ds = [] then ((0, 0), w)
         else if LONG_MAX pf < v then ((LONG_MAX pf, end_off), w\<lparr>errno := ERANGE pf\<rparr>)
         else if v < LONG_MIN pf then ((LONG_MIN pf, end_off), w\<lparr>errno := ERANGE pf\<rparr>)
         else ((v, end_off), w))"

text \<open>
  The string a call of \<^verbatim>\<open>strtok\<close> scans: its first argument, or, when that is a null
  pointer, the place where the previous call stopped.
\<close>

definition strtok_input :: "string option \<Rightarrow> world \<Rightarrow> string option" where
  "strtok_input s w = (case s of Some str \<Rightarrow> Some str | None \<Rightarrow> strtok_save w)"

text \<open>
  \<^verbatim>\<open>strtok(s, delim)\<close>: skip delimiters; when nothing is left the result is a null
  pointer (\<open>None\<close>) and scanning stays at the end of the string; otherwise the token runs to
  the next delimiter and scanning resumes after that delimiter. With a null \<^verbatim>\<open>s\<close> and no
  earlier call there is no string to scan and a null pointer is read.
\<close>

definition strtok :: "string option \<Rightarrow> string \<Rightarrow> world \<Rightarrow> (halt + string option) \<times> world" where
  "strtok s delim w =
     (case strtok_input s w of
        None \<Rightarrow> (Inl NullPointer, w)
      | Some str \<Rightarrow>
          (let t = dropWhile (\<lambda>c. c \<in> set delim) str
           in if t = [] then (Inr None, w\<lparr>strtok_save := Some []\<rparr>)
              else (Inr (Some (takeWhile (\<lambda>c. c \<notin> set delim) t)),
                    w\<lparr>strtok_save := Some (drop 1 (dropWhile (\<lambda>c. c \<notin> set delim) t))\<rparr>)))"

text \<open>\<^verbatim>\<open>strcasecmp\<close>: the difference of the first pair of characters that differ in lower case.\<close>

fun strcasecmp :: "string \<Rightarrow> string \<Rightarrow> int" where
  "strcasecmp [] [] = 0"
| "strcasecmp [] (y # ys) = - int (of_char (tolower y))"
| "strcasecmp (x # xs) [] = int (of_char (tolower x))"
| "strcasecmp (x # xs) (y # ys) =
     (if tolower x = tolower y then strcasecmp xs ys
      else int (of_char (tolower x)) - int (of_char (tolower y)))"

section \<open>Parsing the arguments\<close>

lemma strtok_shorter:
  assumes "strtok s delim w = (Inr (Some tok), w1)"
  shows "\<exists>str rest. strtok_input s w = Some str \<and> strtok_save w1 = Some rest \<and>
    length rest < length str"
proof -
  from assms obtain str where i: "strtok_input s w = Some str"
    by (auto simp: strtok_def split: option.splits)
  define t where "t = dropWhile (\<lambda>c. c \<in> set delim) str"
  define rest where "rest = drop 1 (dropWhile (\<lambda>c. c \<notin> set delim) t)"
  from assms i have ne: "t \<noteq> []" and r: "strtok_save w1 = Some rest"
    by (auto simp: strtok_def t_def rest_def Let_def split: if_splits)
  have "length (dropWhile (\<lambda>c. c \<notin> set delim) t) \<le> length t"
    by (rule length_dropWhile_le)
  with ne have "length rest < length t"
    by (cases t) (auto simp: rest_def)
  moreover have "length t \<le> length str"
    unfolding t_def by (rule length_dropWhile_le)
  ultimately have "length rest < length str" by simp
  with i r show ?thesis by blast
qed

lemma strtok_measure:
  assumes "strtok s delim w = (Inr (Some tok), w1)"
  shows "(case strtok_input None w1 of None \<Rightarrow> 0 | Some str \<Rightarrow> length str) <
    (case strtok_input s w of None \<Rightarrow> 0 | Some str \<Rightarrow> length str)"
  using strtok_shorter [OF assms] by (auto simp: strtok_input_def)

text \<open>
  The loop of \<^verbatim>\<open>parse_check_method\<close>: one token per round, or-ing its bit into the
  mask; an unknown token ends the process with \<^verbatim>\<open>exit(EINVAL)\<close>. The first round scans
  \<^verbatim>\<open>s\<close>, every later one passes a null pointer to \<^verbatim>\<open>strtok\<close>.
\<close>

function parse_check_method_loop ::
  "platform \<Rightarrow> string option \<Rightarrow> int \<Rightarrow> world \<Rightarrow> (halt + int) \<times> world" where
  "parse_check_method_loop pf s check_method w =
     (case strtok s '','' w of
        (Inl h, w1) \<Rightarrow> (Inl h, w1)
      | (Inr None, w1) \<Rightarrow> (Inr check_method, w1)
      | (Inr (Some tok), w1) \<Rightarrow>
          if strcasecmp tok ''stat'' = 0
          then parse_check_method_loop pf None (check_method OR CHECK_METHOD_STAT) w1
          else if strcasecmp tok ''readdir'' = 0
          then parse_check_method_loop pf None (check_method OR CHECK_METHOD_READDIR) w1
          else (Inl (Exit (EINVAL pf)), w1))"
  by pat_completeness auto
termination
  by (relation "measure (\<lambda>(pf, s, check_method, w).
        case strtok_input s w of None \<Rightarrow> 0 | Some str \<Rightarrow> length str)")
    (auto dest!: strtok_measure [OF sym])

declare parse_check_method_loop.simps [simp del]

definition parse_check_method ::
  "platform \<Rightarrow> string option \<Rightarrow> world \<Rightarrow> (halt + int) \<times> world" where
  "parse_check_method pf s w = parse_check_method_loop pf s 0 w"

text \<open>
  \<^verbatim>\<open>safe_atoi\<close>: the value of \<^verbatim>\<open>strtol\<close> when something was converted, \<^verbatim>\<open>errno\<close> is
  not \<^verbatim>\<open>ERANGE\<close> and the value fits \<^verbatim>\<open>int\<close>; \<^verbatim>\<open>exit(EINVAL)\<close> otherwise. \<^verbatim>\<open>errno\<close> is
  not cleared before the call. \<^verbatim>\<open>strtol\<close> reads the string \<^verbatim>\<open>s\<close> points to, so a null
  \<^verbatim>\<open>s\<close> is a null pointer read.
\<close>

definition safe_atoi :: "platform \<Rightarrow> string option \<Rightarrow> world \<Rightarrow> (halt + int) \<times> world" where
  "safe_atoi pf s w =
     (case s of
        None \<Rightarrow> (Inl NullPointer, w)
      | Some str \<Rightarrow>
          (case strtol pf str w of
             ((ret, end_off), w1) \<Rightarrow>
               if end_off \<noteq> 0 \<and> errno w1 \<noteq> ERANGE pf \<and> INT_MIN pf \<le> ret \<and> ret \<le> INT_MAX pf
               then (Inr ret, w1)
               else (Inl (Exit (EINVAL pf)), w1)))"

section \<open>The main program\<close>

text \<open>
  An element of \<^verbatim>\<open>int exitcode_map[ERRNO_MAX]\<close> is read or written at an index that the
  source does not check. Inside the array the access is a list access; outside it C gives the
  program no defined behaviour, which the model records as a way of its own to end the run.
\<close>

definition array_store :: "int list \<Rightarrow> int \<Rightarrow> int \<Rightarrow> halt + int list" where
  "array_store a i v =
     (if 0 \<le> i \<and> i < int (length a) then Inr (a[nat i := v]) else Inl (OutOfBounds i))"

definition array_load :: "int list \<Rightarrow> int \<Rightarrow> halt + int" where
  "array_load a i =
     (if 0 \<le> i \<and> i < int (length a) then Inr (a ! nat i) else Inl (OutOfBounds i))"

text \<open>\<^verbatim>\<open>for (i = 0; i < ERRNO_MAX; i++) exitcode_map[i] = i;\<close>\<close>

definition init_exitcode_map :: "int list" where
  "init_exitcode_map =
     foldl (\<lambda>a i. a[i := int i]) (replicate (nat ERRNO_MAX) 0) [0..<nat ERRNO_MAX]"

text \<open>The local variables of \<^verbatim>\<open>main\<close> that the option loop sets.\<close>

record locals =
  exitcode_map :: "int list"
  check_method_set :: int
  check_method :: int
  timeout :: int

definition initial_locals :: locals where
  "initial_locals =
     \<lparr>exitcode_map = init_exitcode_map, check_method_set = 0, check_method = 0, timeout = 2\<rparr>"

text \<open>
  One round of the option loop: the \<^verbatim>\<open>switch\<close> on the character that \<^verbatim>\<open>getopt_long\<close>
  returned, with \<^verbatim>\<open>optarg\<close>, which is a null pointer (\<open>None\<close>) when \<^verbatim>\<open>getopt_long\<close>
  found no argument for the option.
\<close>

definition main_option ::
  "platform \<Rightarrow> char \<times> string option \<Rightarrow> locals \<Rightarrow> world \<Rightarrow> (halt + locals) \<times> world" where
  "main_option pf opt l w =
     (case opt of (c, optarg) \<Rightarrow>
        if c = CHR ''h'' then (Inl (Exit 0), w)
        else if c = CHR ''i'' then
          (case safe_atoi pf optarg w of
             (Inl h, w1) \<Rightarrow> (Inl h, w1)
           | (Inr tmp, w1) \<Rightarrow>
               (case array_store (exitcode_map l) tmp 0 of
                  Inl h \<Rightarrow> (Inl h, w1)
                | Inr a \<Rightarrow> (Inr (l\<lparr>exitcode_map := a\<rparr>), w1)))
        else if c = CHR ''m'' then
          (case parse_check_method pf optarg w of
             (Inl h, w1) \<Rightarrow> (Inl h, w1)
           | (Inr m, w1) \<Rightarrow> (Inr (l\<lparr>check_method_set := 1, check_method := m\<rparr>), w1))
        else if c = CHR ''t'' then
          (case safe_atoi pf optarg w of
             (Inl h, w1) \<Rightarrow> (Inl h, w1)
           | (Inr n, w1) \<Rightarrow> (Inr (l\<lparr>timeout := n\<rparr>), w1))
        else if c = CHR ''v'' then
          (Inr l, if verbosity w \<le> 2 then w\<lparr>verbosity := verbosity w + 1\<rparr> else w)
        else if c = CHR ''q'' then
          (Inr l, if 1 \<le> verbosity w then w\<lparr>verbosity := verbosity w - 1\<rparr> else w)
        else if c = CHR ''?'' then (Inr l, w)
        else (Inl Abort, w))"

text \<open>The option loop, over the options in the order \<^verbatim>\<open>getopt_long\<close> delivers them.\<close>

fun main_options ::
  "platform \<Rightarrow> (char \<times> string option) list \<Rightarrow> locals \<Rightarrow> world \<Rightarrow>
     (halt + locals) \<times> world" where
  "main_options pf [] l w = (Inr l, w)"
| "main_options pf (opt # opts) l w =
     (case main_option pf opt l w of
        (Inl h, w1) \<Rightarrow> (Inl h, w1)
      | (Inr l1, w1) \<Rightarrow> main_options pf opts l1 w1)"

text \<open>The default of the check method, applied when no \<^verbatim>\<open>-m\<close> was seen.\<close>

definition default_check_method :: "locals \<Rightarrow> locals" where
  "default_check_method l =
     (if check_method_set l = 0
      then l\<lparr>check_method := (check_method l OR CHECK_METHOD_STAT) OR CHECK_METHOD_READDIR\<rparr>
      else l)"

text \<open>
  \<^verbatim>\<open>main\<close> from the end of the option loop to the return of \<^verbatim>\<open>wait_for_child\<close>, for
  the arguments left over (\<^verbatim>\<open>argv[optind..]\<close>): the checks of the path count and of the
  effective user, the installation of the handler, \<^verbatim>\<open>fork\<close>, and then the Worker
  (\<^verbatim>\<open>child == 0\<close>), which ends with \<^verbatim>\<open>exit(ret)\<close>, or the Supervisor, whose \<^verbatim>\<open>ret\<close> is
  the result. After a failure of \<^verbatim>\<open>sigaction\<close> the source ends with \<^verbatim>\<open>exit(errno)\<close>
  once the message is written; the writing of a message is not a call of the model, and
  \<^verbatim>\<open>errno\<close> is read as \<^verbatim>\<open>sigaction\<close> left it.
\<close>

definition main_run ::
  "platform \<Rightarrow> os \<Rightarrow> string list \<Rightarrow> waitpid_res list \<Rightarrow> locals \<Rightarrow> world \<Rightarrow>
     ((halt + int) \<times> world) option" where
  "main_run pf os paths ws l w =
     (if int (length paths) \<le> 0 then Some (Inl (Exit (EINVAL pf)), w)
      else if 1 < int (length paths) then Some (Inl (Exit (EINVAL pf)), w)
      else
        (let path = paths ! 0;
             w1 = w\<lparr>trace := trace w @ [Geteuid]\<rparr>
         in if 0 < os_geteuid os then Some (Inl (Exit (EINVAL pf)), w1)
            else
              (case syscall Sigaction (os_sigaction os) w1 of
                 (Fail e, w2) \<Rightarrow> Some (Inl (Exit (errno w2)), w2)
               | (Ok v, w2) \<Rightarrow>
                   (case syscall Fork (os_fork os) w2 of
                      (r, w3) \<Rightarrow>
                        (let w4 = w3\<lparr>child := (case r of Fail e \<Rightarrow> - 1 | Ok pid \<Rightarrow> pid)\<rparr>
                         in if child w4 < 0
                            then (let errsave = errno w4 in Some (Inl (Exit errsave), w4))
                            else if child w4 = 0
                            then (case check_mountpoint os path (check_method l) w4 of
                                    (ret, w5) \<Rightarrow> Some (Inl (Exit ret), w5))
                            else wait_for_child pf (timeout l) ws w4)))))"

text \<open>
  \<^verbatim>\<open>main\<close>: the options \<^verbatim>\<open>getopt_long\<close> finds, the arguments left over, and the
  answers of \<^verbatim>\<open>waitpid\<close>. The Supervisor ends with \<^verbatim>\<open>exit(exitcode_map[ret])\<close>.
  \<open>None\<close> is a run that never ends.
\<close>

definition main ::
  "platform \<Rightarrow> os \<Rightarrow> (char \<times> string option) list \<Rightarrow> string list \<Rightarrow> waitpid_res list \<Rightarrow>
     world \<Rightarrow>
     (halt \<times> world) option" where
  "main pf os opts paths ws w =
     (case main_options pf opts initial_locals w of
        (Inl h, w1) \<Rightarrow> Some (h, w1)
      | (Inr l0, w1) \<Rightarrow>
          (let l = default_check_method l0
           in case main_run pf os paths ws l w1 of
                None \<Rightarrow> None
              | Some (Inl h, w2) \<Rightarrow> Some (h, w2)
              | Some (Inr ret, w2) \<Rightarrow>
                  (case array_load (exitcode_map l) ret of
                     Inl h \<Rightarrow> Some (h, w2)
                   | Inr v \<Rightarrow> Some (Exit v, w2))))"

section \<open>The command line\<close>

text \<open>
  \<^verbatim>\<open>main\<close> above takes the options as \<^verbatim>\<open>getopt_long\<close> delivers them. What it delivers
  for a command line is fixed by the two tables \<^verbatim>\<open>main\<close> passes to it: the option string
  \<^verbatim>\<open>"hm:t:vqi:"\<close> and the array \<^verbatim>\<open>long_options\<close>, in which every long option is
  declared \<^verbatim>\<open>no_argument\<close> and every \<^verbatim>\<open>flag\<close> is null.
\<close>

datatype has_arg = no_argument | required_argument | optional_argument

definition optstring :: string where
  "optstring = ''hm:t:vqi:''"

definition long_options :: "(string \<times> has_arg \<times> char) list" where
  "long_options =
     [(''help'', no_argument, CHR ''h''),
      (''method'', no_argument, CHR ''m''),
      (''timeout'', no_argument, CHR ''t''),
      (''verbose'', no_argument, CHR ''v''),
      (''quiet'', no_argument, CHR ''q''),
      (''ignore-errno'', no_argument, CHR ''i'')]"

text \<open>
  \<^verbatim>\<open>getopt_long\<close> of the GNU C library, with \<^verbatim>\<open>POSIXLY_CORRECT\<close> unset, modelled from
  \<^verbatim>\<open>getopt_long(3)\<close>; the function itself is not part of the repository. A short option is
  looked up in the option string: a colon after it means that it takes an argument, which is
  the rest of the element or else the next element. An unknown character, or a missing
  argument, is delivered as \<^verbatim>\<open>'?'\<close>. \<^verbatim>\<open>optarg\<close> is a null pointer unless the option has
  an argument.
\<close>

fun short_spec :: "string \<Rightarrow> char \<Rightarrow> has_arg option" where
  "short_spec [] c = None"
| "short_spec (x # xs) c =
     (if x = c
      then Some (if take 2 xs = ''::'' then optional_argument
                 else if take 1 xs = '':'' then required_argument
                 else no_argument)
      else short_spec xs c)"

fun short_cluster ::
  "string \<Rightarrow> string list \<Rightarrow> (char \<times> string option) list \<times> string list" where
  "short_cluster [] rest = ([], rest)"
| "short_cluster (c # cs) rest =
     (case (if c = CHR '':'' \<or> c = CHR '';'' then None else short_spec optstring c) of
        None \<Rightarrow>
          (case short_cluster cs rest of (os, r) \<Rightarrow> ((CHR ''?'', None) # os, r))
      | Some no_argument \<Rightarrow>
          (case short_cluster cs rest of (os, r) \<Rightarrow> ((c, None) # os, r))
      | Some required_argument \<Rightarrow>
          (if cs \<noteq> [] then ([(c, Some cs)], rest)
           else (case rest of
                   [] \<Rightarrow> ([(CHR ''?'', None)], [])
                 | a # rest' \<Rightarrow> ([(c, Some a)], rest')))
      | Some optional_argument \<Rightarrow>
          (if cs \<noteq> [] then ([(c, Some cs)], rest) else ([(c, None)], rest)))"

text \<open>
  A long option is found by its full name or by an abbreviation that fits one entry only.
\<close>

definition long_match :: "string \<Rightarrow> (string \<times> has_arg \<times> char) option" where
  "long_match name =
     (case filter (\<lambda>e. fst e = name) long_options of
        e # es \<Rightarrow> Some e
      | [] \<Rightarrow>
          (case filter (\<lambda>e. take (length name) (fst e) = name) long_options of
             [e] \<Rightarrow> Some e
           | _ \<Rightarrow> None))"

definition deliver ::
  "char \<times> string option \<Rightarrow> (char \<times> string option) list \<times> string list \<Rightarrow>
     (char \<times> string option) list \<times> string list" where
  "deliver opt g = (opt # fst g, snd g)"

lemma short_cluster_length: "length (snd (short_cluster cs rest)) \<le> length rest"
  by (induction cs rest rule: short_cluster.induct)
    (auto split: option.splits has_arg.splits prod.splits list.splits)

text \<open>
  All calls of \<^verbatim>\<open>getopt_long\<close> of one run: the options in the order they are delivered,
  and the elements that are not options, which are moved behind the options
  (\<^verbatim>\<open>argv[optind..]\<close> after the loop). \<^verbatim>\<open>--\<close> ends the options. A long option declared
  \<^verbatim>\<open>no_argument\<close> is delivered with a null \<^verbatim>\<open>optarg\<close>, and as \<^verbatim>\<open>'?'\<close> when it is written
  with \<^verbatim>\<open>=value\<close>.
\<close>

function getopt_long :: "string list \<Rightarrow> (char \<times> string option) list \<times> string list" where
  "getopt_long [] = ([], [])"
| "getopt_long (a # rest) =
     (if a = ''--'' then ([], rest)
      else if take 2 a = ''--'' then
        (let body = drop 2 a;
             name = takeWhile (\<lambda>c. c \<noteq> CHR ''='') body;
             value = (if CHR ''='' \<in> set body
                      then Some (drop 1 (dropWhile (\<lambda>c. c \<noteq> CHR ''='') body)) else None)
         in case long_match name of
              None \<Rightarrow> deliver (CHR ''?'', None) (getopt_long rest)
            | Some (n, h, v) \<Rightarrow>
                (case value of
                   Some x \<Rightarrow>
                     (if h = no_argument then deliver (CHR ''?'', None) (getopt_long rest)
                      else deliver (v, Some x) (getopt_long rest))
                 | None \<Rightarrow>
                     (if h = required_argument
                      then (case rest of
                              [] \<Rightarrow> ([(CHR ''?'', None)], [])
                            | b # rest' \<Rightarrow> deliver (v, Some b) (getopt_long rest'))
                      else deliver (v, None) (getopt_long rest))))
      else if take 1 a = ''-'' \<and> tl a \<noteq> [] then
        (let sc = short_cluster (tl a) rest;
             g = getopt_long (snd sc)
         in (fst sc @ fst g, snd g))
      else (let g = getopt_long rest in (fst g, a # snd g)))"
  by pat_completeness auto
termination
  by (relation "measure length") (auto simp: short_cluster_length less_Suc_eq_le)

text \<open>
  \<^verbatim>\<open>main(argc, argv)\<close>: \<^verbatim>\<open>argv[0]\<close> is the name of the program.
\<close>

definition main_of_argv ::
  "platform \<Rightarrow> os \<Rightarrow> string list \<Rightarrow> waitpid_res list \<Rightarrow> world \<Rightarrow> (halt \<times> world) option" where
  "main_of_argv pf os argv ws w =
     (case getopt_long (tl argv) of (opts, paths) \<Rightarrow> main pf os opts paths ws w)"

section \<open>Vocabulary of the properties\<close>

text \<open>
  The classified outcome code of a run: the value \<^verbatim>\<open>wait_for_child\<close> returns to \<^verbatim>\<open>main\<close>,
  when the run is a Supervisor's and gets there.
\<close>

definition classified_outcome ::
  "platform \<Rightarrow> os \<Rightarrow> (char \<times> string option) list \<Rightarrow> string list \<Rightarrow> waitpid_res list \<Rightarrow>
     world \<Rightarrow>
     int option" where
  "classified_outcome pf os opts paths ws w =
     (case main_options pf opts initial_locals w of
        (Inl h, w1) \<Rightarrow> None
      | (Inr l0, w1) \<Rightarrow>
          (case main_run pf os paths ws (default_check_method l0) w1 of
             Some (Inr ret, w2) \<Rightarrow> Some ret
           | _ \<Rightarrow> None))"

text \<open>The calls of the status probe and those of the directory-listing probe.\<close>

fun stat_probe_call :: "call \<Rightarrow> bool" where
  "stat_probe_call (Open p) = True"
| "stat_probe_call (Fstat fd) = True"
| "stat_probe_call (Close fd) = True"
| "stat_probe_call c = False"

fun readdir_probe_call :: "call \<Rightarrow> bool" where
  "readdir_probe_call (Opendir p) = True"
| "readdir_probe_call (Readdir d) = True"
| "readdir_probe_call (Closedir d) = True"
| "readdir_probe_call c = False"

definition succeeded :: "sysres \<Rightarrow> bool" where
  "succeeded r = (case r of Ok v \<Rightarrow> True | Fail e \<Rightarrow> False)"

text \<open>
  An operating system whose failing calls report system failure numbers (POSIX: \<^verbatim>\<open>errno\<close>
  values are positive).
\<close>

definition failure_is_errno :: "sysres \<Rightarrow> bool" where
  "failure_is_errno r = (case r of Ok v \<Rightarrow> True | Fail e \<Rightarrow> system_errno e)"

definition posix_os :: "os \<Rightarrow> bool" where
  "posix_os os =
     ((\<forall>p. failure_is_errno (os_open os p)) \<and> (\<forall>fd. failure_is_errno (os_fstat os fd)) \<and>
      (\<forall>fd. failure_is_errno (os_close os fd)) \<and> (\<forall>p. failure_is_errno (os_opendir os p)) \<and>
      (\<forall>d. case os_readdir os d of ReadFail e \<Rightarrow> system_errno e | _ \<Rightarrow> True) \<and>
      (\<forall>d. failure_is_errno (os_closedir os d)))"

text \<open>
  A string that is an integer: an optional sign followed by decimal digits and nothing else.
\<close>

definition integer_string :: "string \<Rightarrow> bool" where
  "integer_string s =
     (let u = (if s \<noteq> [] \<and> (hd s = CHR ''-'' \<or> hd s = CHR ''+'') then tl s else s)
      in u \<noteq> [] \<and> list_all isdigit u)"

text \<open>
  A string that begins with the integer \<open>n\<close>: white space, an optional sign, a longest run of
  at least one decimal digit, and then anything.
\<close>

definition leading_integer :: "string \<Rightarrow> int \<Rightarrow> bool" where
  "leading_integer s n =
     (\<exists>sp sgn ds rest.
        s = sp @ sgn @ ds @ rest \<and> list_all isspace sp \<and>
        (sgn = [] \<or> sgn = ''+'' \<or> sgn = ''-'') \<and>
        ds \<noteq> [] \<and> list_all isdigit ds \<and> (rest = [] \<or> \<not> isdigit (hd rest)) \<and>
        n = (if sgn = ''-'' then - digits_value ds else digits_value ds))"

section \<open>Concrete runs\<close>

text \<open>
  An operating system on which every call succeeds, the caller is root and \<^verbatim>\<open>fork\<close>
  returns in the parent with the child 4242; variations of it are written as record updates.
\<close>

definition healthy_os :: os where
  "healthy_os =
     \<lparr>os_open = (\<lambda>p. Ok 3), os_fstat = (\<lambda>fd. Ok 0), os_close = (\<lambda>fd. Ok 0),
      os_opendir = (\<lambda>p. Ok 4), os_readdir = (\<lambda>d. Entry), os_closedir = (\<lambda>d. Ok 0),
      os_kill = (\<lambda>p s. Ok 0), os_geteuid = 0, os_sigaction = Ok 0, os_fork = Ok 4242\<rparr>"

text \<open>The Supervisor after \<^verbatim>\<open>fork\<close>: the child is recorded.\<close>

definition supervisor_world :: world where
  "supervisor_world = initial_world\<lparr>child := 4242\<rparr>"

section \<open>Facts about the wait loop\<close>

lemma waitpid_loop_interrupted:
  "\<exists>w'. waitpid_loop pf (replicate n (WaitFail (EINTR pf)) @ ws) w = waitpid_loop pf ws w' \<and>
        child w' = child w \<and> timer w' = timer w \<and> verbosity w' = verbosity w \<and>
        trace w' = trace w @ replicate n (Waitpid (child w))"
proof (induction n arbitrary: w)
  case 0
  show ?case by (intro exI [of _ w]) simp
next
  case (Suc n)
  let ?w1 = "w\<lparr>errno := EINTR pf, trace := trace w @ [Waitpid (child w)]\<rparr>"
  from Suc.IH [of ?w1] obtain w' where
    "waitpid_loop pf (replicate n (WaitFail (EINTR pf)) @ ws) ?w1 = waitpid_loop pf ws w'"
    "child w' = child w" "timer w' = timer w" "verbosity w' = verbosity w"
    "trace w' = trace w @ Waitpid (child w) # replicate n (Waitpid (child w))"
    by auto
  then show ?case
    by (intro exI [of _ w']) (simp add: replicate_app_Cons_same)
qed

lemma waitpid_loop_all_interrupted:
  "waitpid_loop pf (replicate n (WaitFail (EINTR pf))) w = None"
  using waitpid_loop_interrupted [of pf n "[]" w] by auto

lemma waitpid_loop_shape:
  "waitpid_loop pf ws w = Some (Inr st, w') \<Longrightarrow>
     \<exists>n rest. ws = replicate n (WaitFail (EINTR pf)) @ WaitOk st # rest \<and>
       timer w' = timer w \<and> child w' = child w \<and>
       trace w' = trace w @ replicate (Suc n) (Waitpid (child w))"
proof (induction pf ws w rule: waitpid_loop.induct)
  case (1 pf w)
  then show ?case by simp
next
  case (2 pf e rs w)
  let ?w1 = "w\<lparr>errno := e, trace := trace w @ [Waitpid (child w)]\<rparr>"
  from "2.prems" have e: "e = EINTR pf" and r: "waitpid_loop pf rs ?w1 = Some (Inr st, w')"
    by (auto simp: Let_def split: if_splits)
  from "2.IH" [OF refl _ r] e obtain n rest where
    "rs = replicate n (WaitFail (EINTR pf)) @ WaitOk st # rest"
    "timer w' = timer w" "child w' = child w"
    "trace w' = trace w @ Waitpid (child w) # replicate (Suc n) (Waitpid (child w))"
    by auto
  then show ?case using e
    by (intro exI [of _ "Suc n"] exI [of _ rest]) simp
next
  case (3 pf status rs w)
  then show ?case
    by (intro exI [of _ 0] exI [of _ rs]) auto
qed

text \<open>
  After any number of interrupted waits, an observed status ends \<^verbatim>\<open>wait_for_child\<close> with
  the value of the chain of tests, the alarm cancelled and the calls in the order of the
  source.
\<close>

lemma wait_for_child_observed:
  "\<exists>w'. wait_for_child pf t (replicate n (WaitFail (EINTR pf)) @ WaitOk st # rest) w =
          Some (Inr (if WIFEXITED st then WEXITSTATUS st
                     else if WIFSIGNALED st
                     then (if WTERMSIG st = SIGKILL pf then ETIMEDOUT pf else EUNKNOWN)
                     else EUNKNOWN), w') \<and>
        timer w' = 0 \<and> child w' = child w \<and>
        trace w' = trace w @ Alarm t # replicate (Suc n) (Waitpid (child w)) @ [Alarm 0]"
proof -
  obtain w1 where
    l: "waitpid_loop pf (replicate n (WaitFail (EINTR pf)) @ WaitOk st # rest) (alarm t w) =
        waitpid_loop pf (WaitOk st # rest) w1" and
    c: "child w1 = child (alarm t w)" and
    tr: "trace w1 = trace (alarm t w) @ replicate n (Waitpid (child (alarm t w)))"
    using waitpid_loop_interrupted [of pf n "WaitOk st # rest" "alarm t w"] by blast
  show ?thesis
    unfolding wait_for_child_def l
    by (simp add: alarm_def c tr replicate_append_same)
qed

lemma wait_for_child_halt:
  "wait_for_child pf t ws w = Some (Inl h, w') \<Longrightarrow> h = Exit 1"
proof -
  have "waitpid_loop pf ws v = Some (Inl h, w') \<Longrightarrow> h = Exit 1" for v
    by (induction pf ws v rule: waitpid_loop.induct) (auto simp: Let_def split: if_splits)
  then show "wait_for_child pf t ws w = Some (Inl h, w') \<Longrightarrow> h = Exit 1"
    by (auto simp: wait_for_child_def Let_def split: option.splits sum.splits prod.splits)
qed

lemma wait_for_child_range:
  assumes "posix_platform pf" and "wait_for_child pf t ws w = Some (Inr ret, w')"
  shows "0 \<le> ret \<and> ret \<le> 255"
proof -
  from assms(1) have e: "0 \<le> ETIMEDOUT pf" "ETIMEDOUT pf \<le> 255"
    by (simp_all add: posix_platform_def system_errno_def)
  have x: "0 \<le> WEXITSTATUS st \<and> WEXITSTATUS st \<le> 255" for st
    by (cases st) simp_all
  from assms(2) obtain st where
    "ret = (if WIFEXITED st then WEXITSTATUS st
            else if WIFSIGNALED st
            then (if WTERMSIG st = SIGKILL pf then ETIMEDOUT pf else EUNKNOWN)
            else if WIFSTOPPED st then EUNKNOWN
            else if WIFCONTINUED st then EUNKNOWN
            else EUNKNOWN)"
    by (auto simp: wait_for_child_def Let_def split: option.splits sum.splits prod.splits)
  with e x [of st] show ?thesis
    by (simp add: EUNKNOWN_def)
qed

section \<open>Facts about the probes\<close>

lemma check_mountpoint_stat_trace:
  "\<exists>cs. trace (snd (check_mountpoint_stat os path w)) = trace w @ Open path # cs \<and>
        list_all stat_probe_call cs"
  by (auto simp: check_mountpoint_stat_def syscall_def Let_def split: sysres.splits)

lemma check_mountpoint_readdir_trace:
  "\<exists>cs. trace (snd (check_mountpoint_readdir os path w)) = trace w @ Opendir path # cs \<and>
        list_all readdir_probe_call cs"
  by (auto simp: check_mountpoint_readdir_def syscall_def sys_readdir_def Let_def
      split: sysres.splits readdir_res.splits)

lemma posix_os_failures:
  assumes "posix_os os"
  shows "os_open os p = Fail e \<Longrightarrow> 0 \<le> e" "os_open os p = Fail e \<Longrightarrow> e \<le> 254"
    "os_fstat os fd = Fail e \<Longrightarrow> 0 \<le> e" "os_fstat os fd = Fail e \<Longrightarrow> e \<le> 254"
    "os_close os fd = Fail e \<Longrightarrow> 0 \<le> e" "os_close os fd = Fail e \<Longrightarrow> e \<le> 254"
    "os_opendir os p = Fail e \<Longrightarrow> 0 \<le> e" "os_opendir os p = Fail e \<Longrightarrow> e \<le> 254"
    "os_readdir os fd = ReadFail e \<Longrightarrow> 0 \<le> e" "os_readdir os fd = ReadFail e \<Longrightarrow> e \<le> 254"
    "os_closedir os fd = Fail e \<Longrightarrow> 0 \<le> e" "os_closedir os fd = Fail e \<Longrightarrow> e \<le> 254"
proof -
  from assms have "failure_is_errno (os_open os p)" "failure_is_errno (os_fstat os fd)"
    "failure_is_errno (os_close os fd)" "failure_is_errno (os_opendir os p)"
    "failure_is_errno (os_closedir os fd)"
    "case os_readdir os fd of ReadFail e \<Rightarrow> system_errno e | _ \<Rightarrow> True"
    by (simp_all add: posix_os_def)
  then show "os_open os p = Fail e \<Longrightarrow> 0 \<le> e" "os_open os p = Fail e \<Longrightarrow> e \<le> 254"
    "os_fstat os fd = Fail e \<Longrightarrow> 0 \<le> e" "os_fstat os fd = Fail e \<Longrightarrow> e \<le> 254"
    "os_close os fd = Fail e \<Longrightarrow> 0 \<le> e" "os_close os fd = Fail e \<Longrightarrow> e \<le> 254"
    "os_opendir os p = Fail e \<Longrightarrow> 0 \<le> e" "os_opendir os p = Fail e \<Longrightarrow> e \<le> 254"
    "os_readdir os fd = ReadFail e \<Longrightarrow> 0 \<le> e" "os_readdir os fd = ReadFail e \<Longrightarrow> e \<le> 254"
    "os_closedir os fd = Fail e \<Longrightarrow> 0 \<le> e" "os_closedir os fd = Fail e \<Longrightarrow> e \<le> 254"
    by (simp_all add: failure_is_errno_def system_errno_def)
qed

lemma check_mountpoint_stat_range:
  assumes "posix_os os"
  shows "0 \<le> fst (check_mountpoint_stat os path w) \<and> fst (check_mountpoint_stat os path w) \<le> 254 \<and>
    (0 \<le> errno w \<and> errno w \<le> 254 \<longrightarrow>
       0 \<le> errno (snd (check_mountpoint_stat os path w)) \<and>
       errno (snd (check_mountpoint_stat os path w)) \<le> 254)"
  by (auto simp: check_mountpoint_stat_def syscall_def Let_def posix_os_failures [OF assms]
      split: sysres.splits)

lemma check_mountpoint_readdir_range:
  assumes "posix_os os" and "0 \<le> errno w" and "errno w \<le> 254"
  shows "0 \<le> fst (check_mountpoint_readdir os path w) \<and>
    fst (check_mountpoint_readdir os path w) \<le> 254"
  using assms(2,3)
  by (auto simp: check_mountpoint_readdir_def syscall_def sys_readdir_def Let_def
      posix_os_failures [OF assms(1)] split: sysres.splits readdir_res.splits)

lemma check_mountpoint_range:
  assumes "posix_os os" and "0 \<le> errno w" and "errno w \<le> 254"
  shows "0 \<le> fst (check_mountpoint os path m w) \<and> fst (check_mountpoint os path m w) \<le> 254"
proof -
  obtain r1 w1 where s: "check_mountpoint_stat os path w = (r1, w1)"
    by (cases "check_mountpoint_stat os path w")
  from check_mountpoint_stat_range [OF assms(1), of path w] s assms(2,3)
  have r1: "0 \<le> r1 \<and> r1 \<le> 254" and e1: "0 \<le> errno w1" "errno w1 \<le> 254"
    by auto
  from check_mountpoint_readdir_range [OF assms(1) e1, of path]
    check_mountpoint_readdir_range [OF assms, of path] r1
  show ?thesis
    by (auto simp: check_mountpoint_def s split: prod.splits)
qed

section \<open>Facts about the string functions and the parsers\<close>

lemma isdigit_facts:
  assumes "isdigit c"
  shows "\<not> isspace c" and "c \<noteq> CHR ''-''" and "c \<noteq> CHR ''+''"
  using assms by (auto simp: isdigit_def isspace_def)

lemma sign_not_space: "\<not> isspace CHR ''-''" "\<not> isspace CHR ''+''"
  by (simp_all add: isspace_def)

lemma takeWhile_digits:
  assumes "list_all isdigit ds" and "rest = [] \<or> \<not> isdigit (hd rest)"
  shows "takeWhile isdigit (ds @ rest) = ds"
proof -
  from assms(2) have "takeWhile isdigit rest = []"
    by (cases rest) auto
  with assms(1) show ?thesis
    by (simp add: takeWhile_append2 list_all_iff)
qed

lemma strtol_of_leading:
  assumes sp: "list_all isspace sp"
    and sg: "sg = [] \<or> sg = ''+'' \<or> sg = ''-''"
    and ds: "ds \<noteq> []" "list_all isdigit ds"
    and rest: "rest = [] \<or> \<not> isdigit (hd rest)"
    and v: "v = (if sg = ''-'' then - digits_value ds else digits_value ds)"
    and range: "LONG_MIN pf \<le> v" "v \<le> LONG_MAX pf"
  shows "\<exists>k. k \<noteq> 0 \<and> strtol pf (sp @ sg @ ds @ rest) w = ((v, k), w)"
proof -
  from ds obtain d ds' where d: "ds = d # ds'" "isdigit d"
    by (cases ds) auto
  have first: "\<not> isspace (hd (sg @ ds @ rest))" "sg @ ds @ rest \<noteq> []"
    using sg d isdigit_facts(1) [of d] sign_not_space by auto
  define s where "s = sp @ sg @ ds @ rest"
  have "dropWhile isspace s = dropWhile isspace (sg @ ds @ rest)"
    unfolding s_def using sp by (intro dropWhile_append2) (simp add: list_all_iff)
  also have "\<dots> = sg @ ds @ rest"
    using first by (cases "sg @ ds @ rest") auto
  finally have t: "dropWhile isspace s = sg @ ds @ rest" .
  have len: "length s = length sp + length sg + length ds + length rest"
    by (simp add: s_def)
  have tw: "takeWhile isdigit (ds @ rest) = ds"
    by (rule takeWhile_digits [OF ds(2) rest])
  have hd_plain: "hd (ds @ rest) \<noteq> CHR ''-''" "hd (ds @ rest) \<noteq> CHR ''+''"
    using d isdigit_facts [of d] by simp_all
  have "\<exists>k. k \<noteq> 0 \<and> strtol pf s w = ((v, k), w)"
    using sg
  proof (elim disjE)
    assume "sg = []"
    with v range ds tw hd_plain show ?thesis
      by (intro exI [of _ "length sp + length ds"]) (simp add: strtol_def t len Let_def)
  next
    assume "sg = ''+''"
    with v range ds tw show ?thesis
      by (intro exI [of _ "length sp + 1 + length ds"]) (simp add: strtol_def t len Let_def)
  next
    assume "sg = ''-''"
    with v range ds tw show ?thesis
      by (intro exI [of _ "length sp + 1 + length ds"]) (simp add: strtol_def t len Let_def)
  qed
  then show ?thesis
    by (simp add: s_def)
qed

lemma safe_atoi_result:
  "safe_atoi pf s w = (r, w') \<Longrightarrow>
     (\<forall>h. r = Inl h \<longrightarrow> h = Exit (EINVAL pf) \<or> h = NullPointer) \<and>
     (\<forall>h str. r = Inl h \<longrightarrow> s = Some str \<longrightarrow> h = Exit (EINVAL pf)) \<and>
     (\<forall>n. r = Inr n \<longrightarrow> w' = w \<and> s \<noteq> None) \<and>
     trace w' = trace w"
  by (auto simp: safe_atoi_def strtol_def Let_def split: if_splits option.splits)

lemma safe_atoi_of_leading:
  assumes "posix_platform pf" and "errno w \<noteq> ERANGE pf"
    and "leading_integer s n" and "INT_MIN pf \<le> n" and "n \<le> INT_MAX pf"
  shows "safe_atoi pf (Some s) w = (Inr n, w)"
proof -
  from assms(3) obtain sp sg ds rest where
    s: "s = sp @ sg @ ds @ rest" and sp: "list_all isspace sp"
    and sg: "sg = [] \<or> sg = ''+'' \<or> sg = ''-''"
    and ds: "ds \<noteq> []" "list_all isdigit ds"
    and rest: "rest = [] \<or> \<not> isdigit (hd rest)"
    and n: "n = (if sg = ''-'' then - digits_value ds else digits_value ds)"
    unfolding leading_integer_def by blast
  from assms(1,4,5) have "LONG_MIN pf \<le> n" "n \<le> LONG_MAX pf"
    by (simp_all add: posix_platform_def)
  from strtol_of_leading [OF sp sg ds rest n this, of w] obtain k where
    "k \<noteq> 0" "strtol pf s w = ((n, k), w)"
    unfolding s by blast
  with assms(2,4,5) show ?thesis
    by (simp add: safe_atoi_def)
qed

lemma safe_atoi_accepted_leading:
  assumes "safe_atoi pf (Some s) w = (Inr n, w')"
  shows "leading_integer s n \<and> INT_MIN pf \<le> n \<and> n \<le> INT_MAX pf"
proof -
  define t where "t = dropWhile isspace s"
  define sg where "sg = (if t \<noteq> [] \<and> (hd t = CHR ''-'' \<or> hd t = CHR ''+'') then [hd t] else [])"
  define u where "u = (if t \<noteq> [] \<and> (hd t = CHR ''-'' \<or> hd t = CHR ''+'') then tl t else t)"
  define ds where "ds = takeWhile isdigit u"
  define v where "v = (if t \<noteq> [] \<and> hd t = CHR ''-'' then - digits_value ds else digits_value ds)"
  have st: "strtol pf s w =
      (if ds = [] then ((0, 0), w)
       else if LONG_MAX pf < v
       then ((LONG_MAX pf, length s - length u + length ds), w\<lparr>errno := ERANGE pf\<rparr>)
       else if v < LONG_MIN pf
       then ((LONG_MIN pf, length s - length u + length ds), w\<lparr>errno := ERANGE pf\<rparr>)
       else ((v, length s - length u + length ds), w))"
    by (simp add: strtol_def Let_def t_def u_def ds_def v_def)
  from assms have ne: "ds \<noteq> []" and nv: "n = v"
    and r: "INT_MIN pf \<le> n" "n \<le> INT_MAX pf"
    by (auto simp: safe_atoi_def st split: if_splits)
  have s: "s = takeWhile isspace s @ sg @ ds @ dropWhile isdigit u"
  proof -
    have "t = sg @ u"
      by (cases t) (auto simp: sg_def u_def)
    moreover have "u = ds @ dropWhile isdigit u"
      by (simp add: ds_def)
    moreover have "s = takeWhile isspace s @ t"
      by (simp add: t_def)
    ultimately show ?thesis by simp
  qed
  have neg: "(t \<noteq> [] \<and> hd t = CHR ''-'') \<longleftrightarrow> sg = ''-''"
    by (auto simp: sg_def)
  have "leading_integer s n"
    unfolding leading_integer_def
  proof (intro exI conjI)
    show "s = takeWhile isspace s @ sg @ ds @ dropWhile isdigit u"
      by (rule s)
    show "list_all isspace (takeWhile isspace s)"
      by (auto simp: list_all_iff dest: set_takeWhileD)
    show "sg = [] \<or> sg = ''+'' \<or> sg = ''-''"
      by (auto simp: sg_def)
    show "ds \<noteq> []" by (rule ne)
    show "list_all isdigit ds"
      by (auto simp: ds_def list_all_iff dest: set_takeWhileD)
    show "dropWhile isdigit u = [] \<or> \<not> isdigit (hd (dropWhile isdigit u))"
      using hd_dropWhile [of isdigit u] by blast
    show "n = (if sg = ''-'' then - digits_value ds else digits_value ds)"
      by (simp add: nv v_def neg)
  qed
  with r show ?thesis by simp
qed

lemma safe_atoi_256:
  assumes "posix_platform pf" and "errno w \<noteq> ERANGE pf"
  shows "safe_atoi pf (Some ''256'') w = (Inr 256, w)"
    and "safe_atoi pf (Some ''-1'') w = (Inr (- 1), w)"
  using assms
  by (simp_all add: safe_atoi_def strtol_def isspace_def isdigit_def digits_value_def
      posix_platform_def Let_def)

lemma leading_integer_5: "leading_integer ''5'' 5"
  unfolding leading_integer_def
  by (intro exI [of _ "[]"] exI [of _ "''5''"]) (simp add: isdigit_def digits_value_def)

lemma strtok_result:
  "strtok s '','' w = (Inl h, w1) \<Longrightarrow> h = NullPointer \<and> w1 = w \<and> strtok_input s w = None"
  "strtok s '','' w = (Inr None, w1) \<Longrightarrow>
     \<exists>str. strtok_input s w = Some str \<and> (\<forall>c\<in>set str. c = CHR '','') \<and>
       w1 = w\<lparr>strtok_save := Some []\<rparr>"
  "strtok s '','' w = (Inr (Some tok), w1) \<Longrightarrow>
     \<exists>str rest. strtok_input s w = Some str \<and> (\<exists>c\<in>set str. c \<noteq> CHR '','') \<and>
       w1 = w\<lparr>strtok_save := Some rest\<rparr>"
  by (auto simp: strtok_def Let_def dropWhile_eq_Nil_conv split: option.splits if_splits)

lemma parse_check_method_loop_halt:
  "parse_check_method_loop pf s m w = (r, w') \<Longrightarrow>
     (\<exists>x. w' = w\<lparr>strtok_save := x\<rparr>) \<and>
     (\<forall>h. r = Inl h \<longrightarrow> h = Exit (EINVAL pf) \<or> h = NullPointer)"
proof (induction pf s m w rule: parse_check_method_loop.induct)
  case (1 pf s m w)
  obtain x y where st: "strtok s '','' w = (x, y)"
    by (cases "strtok s '','' w")
  show ?case
  proof (cases x)
    case (Inl h)
    with "1.prems" st strtok_result(1) [of s w h y] show ?thesis
      by (subst (asm) parse_check_method_loop.simps) (auto intro: exI [of _ "strtok_save w"])
  next
    case (Inr b)
    show ?thesis
    proof (cases b)
      case None
      with "1.prems" st Inr strtok_result(2) [of s w y] show ?thesis
        by (subst (asm) parse_check_method_loop.simps) auto
    next
      case (Some tok)
      from st Inr Some strtok_result(3) [of s w tok y] obtain rest where
        y: "y = w\<lparr>strtok_save := Some rest\<rparr>"
        by auto
      note ih = "1.IH" [OF st [symmetric] Inr Some]
      consider (stat) "strcasecmp tok ''stat'' = 0"
        | (readdir) "strcasecmp tok ''stat'' \<noteq> 0" "strcasecmp tok ''readdir'' = 0"
        | (unknown) "strcasecmp tok ''stat'' \<noteq> 0" "strcasecmp tok ''readdir'' \<noteq> 0"
        by blast
      then show ?thesis
      proof cases
        case stat
        with "1.prems" st Inr Some
        have "parse_check_method_loop pf None (m OR CHECK_METHOD_STAT) y = (r, w')"
          by (subst (asm) parse_check_method_loop.simps) simp
        from ih(1) [OF stat this] show ?thesis
          by (auto simp: y)
      next
        case readdir
        with "1.prems" st Inr Some
        have "parse_check_method_loop pf None (m OR CHECK_METHOD_READDIR) y = (r, w')"
          by (subst (asm) parse_check_method_loop.simps) simp
        from ih(2) [OF readdir this] show ?thesis
          by (auto simp: y)
      next
        case unknown
        with "1.prems" st Inr Some y show ?thesis
          by (subst (asm) parse_check_method_loop.simps) auto
      qed
    qed
  qed
qed

lemma parse_check_method_loop_mask:
  "parse_check_method_loop pf s m w = (Inr m', w') \<Longrightarrow> strtok_input s w = Some str \<Longrightarrow>
     \<exists>b. (b = 0 \<or> b = 1 \<or> b = 2 \<or> b = 3) \<and> m' = m OR b \<and>
         (b \<noteq> 0 \<longleftrightarrow> (\<exists>c\<in>set str. c \<noteq> CHR '',''))"
proof (induction pf s m w arbitrary: str rule: parse_check_method_loop.induct)
  case (1 pf s m w)
  obtain x y where st: "strtok s '','' w = (x, y)"
    by (cases "strtok s '','' w")
  show ?case
  proof (cases x)
    case (Inl h)
    with "1.prems" st show ?thesis
      by (subst (asm) parse_check_method_loop.simps) simp
  next
    case (Inr b)
    show ?thesis
    proof (cases b)
      case None
      with "1.prems"(1) st Inr have "m' = m"
        by (subst (asm) parse_check_method_loop.simps) simp
      with st Inr None strtok_result(2) [of s w y] "1.prems"(2) show ?thesis
        by (intro exI [of _ 0]) auto
    next
      case (Some tok)
      from st Inr Some strtok_result(3) [of s w tok y] "1.prems"(2) obtain rest where
        y: "y = w\<lparr>strtok_save := Some rest\<rparr>" and tk: "\<exists>c\<in>set str. c \<noteq> CHR '',''"
        by auto
      then have inp: "strtok_input None y = Some rest"
        by (simp add: strtok_input_def)
      note ih = "1.IH" [OF st [symmetric] Inr Some]
      have ors: "(1::int) OR 0 = 1" "(1::int) OR 1 = 1" "(1::int) OR 2 = 3" "(1::int) OR 3 = 3"
        "(2::int) OR 0 = 2" "(2::int) OR 1 = 3" "(2::int) OR 2 = 2" "(2::int) OR 3 = 3"
        by simp_all
      consider (stat) "strcasecmp tok ''stat'' = 0"
        | (readdir) "strcasecmp tok ''stat'' \<noteq> 0" "strcasecmp tok ''readdir'' = 0"
        | (unknown) "strcasecmp tok ''stat'' \<noteq> 0" "strcasecmp tok ''readdir'' \<noteq> 0"
        by blast
      then show ?thesis
      proof cases
        case stat
        with "1.prems"(1) st Inr Some
        have r: "parse_check_method_loop pf None (m OR CHECK_METHOD_STAT) y = (Inr m', w')"
          by (subst (asm) parse_check_method_loop.simps) simp
        from ih(1) [OF stat r inp] obtain b where
          b: "b = 0 \<or> b = 1 \<or> b = 2 \<or> b = 3" "m' = (m OR CHECK_METHOD_STAT) OR b"
          by blast
        from b(1) have "1 OR b = 1 \<or> 1 OR b = 3" using ors by auto
        with b(2) tk show ?thesis
          by (intro exI [of _ "1 OR b"]) (auto simp: CHECK_METHOD_STAT_def or.assoc)
      next
        case readdir
        with "1.prems"(1) st Inr Some
        have r: "parse_check_method_loop pf None (m OR CHECK_METHOD_READDIR) y = (Inr m', w')"
          by (subst (asm) parse_check_method_loop.simps) simp
        from ih(2) [OF readdir r inp] obtain b where
          b: "b = 0 \<or> b = 1 \<or> b = 2 \<or> b = 3" "m' = (m OR CHECK_METHOD_READDIR) OR b"
          by blast
        from b(1) have "2 OR b = 2 \<or> 2 OR b = 3" using ors by auto
        with b(2) tk show ?thesis
          by (intro exI [of _ "2 OR b"]) (auto simp: CHECK_METHOD_READDIR_def or.assoc)
      next
        case unknown
        with "1.prems"(1) st Inr Some show ?thesis
          by (subst (asm) parse_check_method_loop.simps) simp
      qed
    qed
  qed
qed

section \<open>Facts about the option loop and the table of exit codes\<close>

lemma foldl_update_upt:
  "n \<le> length xs \<Longrightarrow>
     foldl (\<lambda>a i. a[i := f i]) xs [0..<n] = map f [0..<n] @ drop n xs"
proof (induction n)
  case 0
  show ?case by simp
next
  case (Suc n)
  then have n: "n < length xs" by simp
  have "foldl (\<lambda>a i. a[i := f i]) xs [0..<Suc n] = (map f [0..<n] @ drop n xs)[n := f n]"
    using Suc by simp
  also have "\<dots> = map f [0..<n] @ (drop n xs)[0 := f n]"
    by (simp add: list_update_append)
  also have "drop n xs = xs ! n # drop (Suc n) xs"
    using n by (simp add: Cons_nth_drop_Suc)
  finally show ?case by simp
qed

lemma init_exitcode_map_eq: "init_exitcode_map = map int [0..<256]"
  by (simp add: init_exitcode_map_def ERRNO_MAX_def foldl_update_upt)

lemma length_init_exitcode_map: "length init_exitcode_map = 256"
  by (simp add: init_exitcode_map_eq)

lemma main_option_out_of_bounds:
  "main_option pf opt l w = (Inl (OutOfBounds i), w') \<Longrightarrow>
     \<not> (0 \<le> i \<and> i < int (length (exitcode_map l))) \<and>
     (\<exists>s. opt = (CHR ''i'', Some s) \<and> fst (safe_atoi pf (Some s) w) = Inr i)"
proof -
  assume a: "main_option pf opt l w = (Inl (OutOfBounds i), w')"
  obtain c a where opt: "opt = (c, a)" by (cases opt)
  obtain r1 w1 where sa: "safe_atoi pf a w = (r1, w1)" by (cases "safe_atoi pf a w")
  obtain r2 w2 where pc: "parse_check_method_loop pf a 0 w = (r2, w2)"
    by (cases "parse_check_method_loop pf a 0 w")
  from a safe_atoi_result [OF sa] parse_check_method_loop_halt [OF pc]
  have f: "\<not> (0 \<le> i \<and> i < int (length (exitcode_map l)))" "c = CHR ''i''" "r1 = Inr i"
    by (auto simp: main_option_def opt sa pc parse_check_method_def array_store_def
        split: if_splits sum.splits)
  with safe_atoi_result [OF sa] obtain s where "a = Some s"
    by auto
  with f sa opt show ?thesis
    by simp
qed

lemma main_option_length:
  "main_option pf opt l w = (Inr l', w') \<Longrightarrow>
     length (exitcode_map l') = length (exitcode_map l)"
  by (cases opt)
    (auto simp: main_option_def array_store_def split: if_splits sum.splits prod.splits)

lemma main_options_length:
  "main_options pf opts l w = (Inr l', w') \<Longrightarrow>
     length (exitcode_map l') = length (exitcode_map l)"
proof (induction opts arbitrary: l w)
  case Nil
  then show ?case by simp
next
  case (Cons opt opts)
  then show ?case
    by (auto split: prod.splits sum.splits dest: main_option_length)
qed

lemma main_options_out_of_bounds:
  "main_options pf opts l w = (Inl (OutOfBounds i), w') \<Longrightarrow>
     \<not> (0 \<le> i \<and> i < int (length (exitcode_map l))) \<and>
     (\<exists>s w0. (CHR ''i'', Some s) \<in> set opts \<and> fst (safe_atoi pf (Some s) w0) = Inr i)"
proof (induction opts arbitrary: l w)
  case Nil
  then show ?case by simp
next
  case (Cons opt opts)
  obtain r1 w1 where o: "main_option pf opt l w = (r1, w1)"
    by (cases "main_option pf opt l w")
  show ?case
  proof (cases r1)
    case (Inl h)
    with Cons.prems o have "main_option pf opt l w = (Inl (OutOfBounds i), w')"
      by simp
    from main_option_out_of_bounds [OF this] show ?thesis
      by auto
  next
    case (Inr l1)
    with Cons.prems o have "main_options pf opts l1 w1 = (Inl (OutOfBounds i), w')"
      by simp
    from Cons.IH [OF this] main_option_length [of pf opt l w l1 w1] o Inr show ?thesis
      by auto
  qed
qed

lemma main_option_others:
  "main_option pf (c, s) l w = (Inr l', w') \<Longrightarrow>
     (c \<noteq> CHR ''m'' \<longrightarrow> check_method_set l' = check_method_set l \<and>
        check_method l' = check_method l) \<and>
     (c \<noteq> CHR ''t'' \<longrightarrow> timeout l' = timeout l)"
  by (auto simp: main_option_def split: if_splits prod.splits sum.splits)

lemma main_options_others:
  "main_options pf opts l w = (Inr l', w') \<Longrightarrow>
     (CHR ''m'' \<notin> fst ` set opts \<longrightarrow> check_method_set l' = check_method_set l \<and>
        check_method l' = check_method l) \<and>
     (CHR ''t'' \<notin> fst ` set opts \<longrightarrow> timeout l' = timeout l)"
proof (induction opts arbitrary: l w)
  case Nil
  then show ?case by simp
next
  case (Cons opt opts)
  obtain c s where opt: "opt = (c, s)" by (cases opt)
  from Cons.prems obtain l1 w1 where o: "main_option pf (c, s) l w = (Inr l1, w1)"
    and r: "main_options pf opts l1 w1 = (Inr l', w')"
    by (auto simp: opt split: prod.splits sum.splits)
  from Cons.IH [OF r] main_option_others [OF o] show ?case
    by (auto simp: opt)
qed

lemma main_option_trace:
  "main_option pf opt l w = (r, w') \<Longrightarrow> trace w' = trace w"
proof -
  assume a: "main_option pf opt l w = (r, w')"
  obtain c s where opt: "opt = (c, s)" by (cases opt)
  obtain r1 w1 where sa: "safe_atoi pf s w = (r1, w1)" by (cases "safe_atoi pf s w")
  obtain r2 w2 where pc: "parse_check_method_loop pf s 0 w = (r2, w2)"
    by (cases "parse_check_method_loop pf s 0 w")
  from a safe_atoi_result [OF sa] parse_check_method_loop_halt [OF pc] show ?thesis
    by (auto simp: main_option_def opt sa pc parse_check_method_def
        split: if_splits sum.splits)
qed

lemma main_options_trace:
  "main_options pf opts l w = (r, w') \<Longrightarrow> trace w' = trace w"
proof (induction opts arbitrary: l w)
  case Nil
  then show ?case by simp
next
  case (Cons opt opts)
  obtain r1 w1 where o: "main_option pf opt l w = (r1, w1)"
    by (cases "main_option pf opt l w")
  from Cons.prems o Cons.IH [of _ w1] main_option_trace [OF o] show ?case
    by (cases r1) auto
qed

lemma main_option_errno:
  "main_option pf opt l w = (Inr l', w') \<Longrightarrow> errno w' = errno w"
proof -
  assume a: "main_option pf opt l w = (Inr l', w')"
  obtain c s where opt: "opt = (c, s)" by (cases opt)
  obtain r1 w1 where sa: "safe_atoi pf s w = (r1, w1)" by (cases "safe_atoi pf s w")
  obtain r2 w2 where pc: "parse_check_method_loop pf s 0 w = (r2, w2)"
    by (cases "parse_check_method_loop pf s 0 w")
  from a safe_atoi_result [OF sa] parse_check_method_loop_halt [OF pc] show ?thesis
    by (auto simp: main_option_def opt sa pc parse_check_method_def
        split: if_splits sum.splits)
qed

lemma main_options_errno:
  "main_options pf opts l w = (Inr l', w') \<Longrightarrow> errno w' = errno w"
proof (induction opts arbitrary: l w)
  case Nil
  then show ?case by simp
next
  case (Cons opt opts)
  from Cons.prems obtain l1 w1 where o: "main_option pf opt l w = (Inr l1, w1)"
    and r: "main_options pf opts l1 w1 = (Inr l', w')"
    by (auto split: prod.splits sum.splits)
  from Cons.IH [OF r] main_option_errno [OF o] show ?case by simp
qed

lemma main_options_append:
  "main_options pf (a @ b) l w =
     (case main_options pf a l w of
        (Inl h, w1) \<Rightarrow> (Inl h, w1)
      | (Inr l1, w1) \<Rightarrow> main_options pf b l1 w1)"
  by (induction a arbitrary: l w) (auto split: prod.splits sum.splits)

lemma main_option_suppressed:
  "main_option pf opt (l\<lparr>exitcode_map := (exitcode_map l)[k := 0]\<rparr>) w =
     (case main_option pf opt l w of
        (Inl h, w1) \<Rightarrow> (Inl h, w1)
      | (Inr l1, w1) \<Rightarrow> (Inr (l1\<lparr>exitcode_map := (exitcode_map l1)[k := 0]\<rparr>), w1))"
proof -
  obtain c s where opt: "opt = (c, s)" by (cases opt)
  have u: "(a[k := 0])[j := (0::int)] = (a[j := 0])[k := 0]" for a :: "int list" and j
    by (cases "j = k") (simp_all add: list_update_swap)
  show ?thesis
    by (auto simp: main_option_def opt array_store_def u split: prod.splits sum.splits)
qed

lemma main_options_suppressed:
  "main_options pf opts (l\<lparr>exitcode_map := (exitcode_map l)[k := 0]\<rparr>) w =
     (case main_options pf opts l w of
        (Inl h, w1) \<Rightarrow> (Inl h, w1)
      | (Inr l1, w1) \<Rightarrow> (Inr (l1\<lparr>exitcode_map := (exitcode_map l1)[k := 0]\<rparr>), w1))"
proof (induction opts arbitrary: l w)
  case Nil
  show ?case by simp
next
  case (Cons opt opts)
  show ?case
    by (auto simp: main_option_suppressed Cons.IH split: prod.splits sum.splits)
qed

lemma default_check_method_suppressed:
  "default_check_method (l\<lparr>exitcode_map := a\<rparr>) = (default_check_method l)\<lparr>exitcode_map := a\<rparr>"
  by (simp add: default_check_method_def)

lemma main_run_suppressed:
  "main_run pf os paths ws (l\<lparr>exitcode_map := a\<rparr>) w = main_run pf os paths ws l w"
  by (auto simp: main_run_def Let_def split: prod.splits sysres.splits)

lemma array_load_suppressed:
  "0 \<le> C \<Longrightarrow> C < int (length a) \<Longrightarrow>
     array_load (a[nat C := 0]) ret = (if ret = C then Inr 0 else array_load a ret)"
  by (auto simp: array_load_def nth_list_update)

lemma main_run_halt:
  "main_run pf os paths ws l w = Some (Inl h, w') \<Longrightarrow> \<exists>n. h = Exit n"
  by (auto simp: main_run_def Let_def split: if_splits prod.splits sysres.splits
      dest: wait_for_child_halt)

lemma main_run_range:
  "posix_platform pf \<Longrightarrow> main_run pf os paths ws l w = Some (Inr ret, w') \<Longrightarrow>
     0 \<le> ret \<and> ret \<le> 255"
  by (auto simp: main_run_def Let_def split: if_splits prod.splits sysres.splits
      dest: wait_for_child_range)

lemma main_out_of_bounds:
  assumes "posix_platform pf" and "main pf os opts paths ws w = Some (OutOfBounds i, w')"
  shows "(i < 0 \<or> 255 < i) \<and>
     (\<exists>s w0. (CHR ''i'', Some s) \<in> set opts \<and> fst (safe_atoi pf (Some s) w0) = Inr i)"
proof -
  obtain r1 w1 where o: "main_options pf opts initial_locals w = (r1, w1)"
    by (cases "main_options pf opts initial_locals w")
  show ?thesis
  proof (cases r1)
    case (Inl h)
    with assms(2) o have "main_options pf opts initial_locals w = (Inl (OutOfBounds i), w')"
      by (simp add: main_def)
    from main_options_out_of_bounds [OF this] show ?thesis
      by (auto simp: initial_locals_def length_init_exitcode_map)
  next
    case (Inr l0)
    from main_options_length [of pf opts initial_locals w l0 w1] o Inr
    have len: "length (exitcode_map (default_check_method l0)) = 256"
      by (simp add: initial_locals_def length_init_exitcode_map default_check_method_def)
    from assms(2) o Inr len main_run_range [OF assms(1), of os paths ws "default_check_method l0" w1]
    have False
      by (auto simp: main_def Let_def array_load_def
          split: option.splits sum.splits prod.splits if_splits dest: main_run_halt)
    then show ?thesis ..
  qed
qed

lemma posix_platform_linux_lp64: "posix_platform linux_lp64"
  by (simp add: posix_platform_def system_errno_def linux_lp64_def)

text \<open>
  With a method selected, the first call of \<^verbatim>\<open>check_mountpoint\<close> is the \<^verbatim>\<open>open\<close> of the
  status probe or the \<^verbatim>\<open>opendir\<close> of the directory-listing probe.
\<close>

lemma check_mountpoint_probes:
  assumes "m = 1 \<or> m = 2 \<or> m = 3"
  shows "\<exists>c cs. trace (snd (check_mountpoint os path m w)) = trace w @ c # cs \<and>
    (c = Open path \<or> c = Opendir path)"
proof -
  obtain r1 w1 where s: "check_mountpoint_stat os path w = (r1, w1)"
    by (cases "check_mountpoint_stat os path w")
  obtain r2 w2 where r: "check_mountpoint_readdir os path w1 = (r2, w2)"
    by (cases "check_mountpoint_readdir os path w1")
  obtain r3 w3 where r': "check_mountpoint_readdir os path w = (r3, w3)"
    by (cases "check_mountpoint_readdir os path w")
  from check_mountpoint_stat_trace [of os path w] s obtain cs where
    cs: "trace w1 = trace w @ Open path # cs"
    by auto
  from check_mountpoint_readdir_trace [of os path w1] r obtain cs' where
    cs': "trace w2 = trace w1 @ Opendir path # cs'"
    by auto
  from check_mountpoint_readdir_trace [of os path w] r' obtain cs'' where
    cs'': "trace w3 = trace w @ Opendir path # cs''"
    by auto
  from assms show ?thesis
  proof (elim disjE)
    assume "m = 1"
    with cs cs' show ?thesis
      by (auto simp: check_mountpoint_def s r CHECK_METHOD_STAT_def CHECK_METHOD_READDIR_def)
  next
    assume "m = 2"
    with cs'' show ?thesis
      by (auto simp: check_mountpoint_def r' CHECK_METHOD_STAT_def CHECK_METHOD_READDIR_def)
  next
    assume "m = 3"
    with cs cs' show ?thesis
      by (auto simp: check_mountpoint_def s r CHECK_METHOD_STAT_def CHECK_METHOD_READDIR_def)
  qed
qed

text \<open>
  The option loop keeps the method set non-empty as long as every \<^verbatim>\<open>-m\<close> it meets has an
  argument with a token.
\<close>

lemma main_option_method:
  assumes "main_option pf (c, a) l w = (Inr l', w')"
    and "c = CHR ''m'' \<longrightarrow> (\<exists>s. a = Some s \<and> (\<exists>x\<in>set s. x \<noteq> CHR '',''))"
    and "check_method (default_check_method l) = 1 \<or> check_method (default_check_method l) = 2 \<or>
      check_method (default_check_method l) = 3"
  shows "check_method (default_check_method l') = 1 \<or>
    check_method (default_check_method l') = 2 \<or> check_method (default_check_method l') = 3"
proof (cases "c = CHR ''m''")
  case True
  with assms(2) obtain s where a: "a = Some s" and tk: "\<exists>x\<in>set s. x \<noteq> CHR '',''"
    by blast
  from assms(1) True a obtain m where
    p: "parse_check_method_loop pf (Some s) 0 w = (Inr m, w')"
    and l': "l' = l\<lparr>check_method_set := 1, check_method := m\<rparr>"
    by (auto simp: main_option_def parse_check_method_def split: prod.splits sum.splits)
  from parse_check_method_loop_mask [OF p, of s] tk have "m = 1 \<or> m = 2 \<or> m = 3"
    by (auto simp: strtok_input_def)
  then show ?thesis
    by (simp add: l' default_check_method_def)
next
  case False
  with main_option_others [OF assms(1)] have "check_method_set l' = check_method_set l"
    "check_method l' = check_method l"
    by simp_all
  then have "check_method (default_check_method l') = check_method (default_check_method l)"
    by (simp add: default_check_method_def)
  with assms(3) show ?thesis
    by simp
qed

lemma main_options_method:
  assumes "main_options pf opts l w = (Inr l', w')"
    and "\<forall>a. (CHR ''m'', a) \<in> set opts \<longrightarrow> (\<exists>s. a = Some s \<and> (\<exists>x\<in>set s. x \<noteq> CHR '',''))"
    and "check_method (default_check_method l) = 1 \<or> check_method (default_check_method l) = 2 \<or>
      check_method (default_check_method l) = 3"
  shows "check_method (default_check_method l') = 1 \<or>
    check_method (default_check_method l') = 2 \<or> check_method (default_check_method l') = 3"
  using assms
proof (induction opts arbitrary: l w)
  case Nil
  then show ?case by simp
next
  case (Cons opt opts)
  obtain c a where opt: "opt = (c, a)" by (cases opt)
  from Cons.prems(1) obtain l1 w1 where o: "main_option pf (c, a) l w = (Inr l1, w1)"
    and r: "main_options pf opts l1 w1 = (Inr l', w')"
    by (auto simp: opt split: prod.splits sum.splits)
  from Cons.prems(2) have "c = CHR ''m'' \<longrightarrow> (\<exists>s. a = Some s \<and> (\<exists>x\<in>set s. x \<noteq> CHR '',''))"
    by (simp add: opt)
  from main_option_method [OF o this Cons.prems(3)] Cons.IH [OF r] Cons.prems(2)
  show ?case
    by simp
qed

lemma initial_locals_method: "check_method (default_check_method initial_locals) = 3"
  by (simp add: default_check_method_def initial_locals_def CHECK_METHOD_STAT_def
      CHECK_METHOD_READDIR_def)

text \<open>The run of the Worker: what \<^verbatim>\<open>check_mountpoint\<close> returns is its exit status.\<close>

lemma worker_run:
  assumes "main_options pf opts initial_locals w = (Inr l, w1)"
    and "os_geteuid os \<le> 0" and "succeeded (os_sigaction os)" and "os_fork os = Ok 0"
  shows "\<exists>w4. trace w4 = trace w @ [Geteuid, Sigaction, Fork] \<and>
    main pf os opts [path] ws w =
      Some (Exit (fst (check_mountpoint os path (check_method (default_check_method l)) w4)),
            snd (check_mountpoint os path (check_method (default_check_method l)) w4))"
proof -
  from assms(3) obtain v where sg: "os_sigaction os = Ok v"
    by (cases "os_sigaction os") (simp_all add: succeeded_def)
  let ?w4 = "w1\<lparr>trace := trace w1 @ [Geteuid, Sigaction, Fork], child := 0\<rparr>"
  from main_options_trace [OF assms(1)] have "trace ?w4 = trace w @ [Geteuid, Sigaction, Fork]"
    by simp
  moreover have "main pf os opts [path] ws w =
      Some (Exit (fst (check_mountpoint os path (check_method (default_check_method l)) ?w4)),
            snd (check_mountpoint os path (check_method (default_check_method l)) ?w4))"
    using assms(2)
    by (simp add: main_def assms(1) main_run_def syscall_def sg assms(4) Let_def
        split: prod.splits)
  ultimately show ?thesis by blast
qed

section \<open>Facts about the command line\<close>

text \<open>
  The short options that take an argument deliver it, whether it is the next element or
  the rest of the same one.
\<close>

lemma getopt_long_short_argument:
  assumes "c = CHR ''m'' \<or> c = CHR ''t'' \<or> c = CHR ''i''"
  shows "getopt_long ([CHR ''-'', c] # s # rest) = deliver (c, Some s) (getopt_long rest)"
  using assms by (auto simp: optstring_def deliver_def Let_def)

lemma getopt_long_short_argument_joined:
  assumes "c = CHR ''m'' \<or> c = CHR ''t'' \<or> c = CHR ''i''" and "s \<noteq> []"
  shows "getopt_long ((CHR ''-'' # c # s) # rest) = deliver (c, Some s) (getopt_long rest)"
  using assms by (auto simp: optstring_def deliver_def Let_def)

text \<open>
  The long options are all declared \<^verbatim>\<open>no_argument\<close>: written alone, each is delivered as
  its short option with a null \<^verbatim>\<open>optarg\<close>, and the element after it is not consumed;
  written with \<^verbatim>\<open>=value\<close>, each is delivered as \<^verbatim>\<open>'?'\<close>.
\<close>

lemma long_match_name:
  assumes "(n, h, v) \<in> set long_options"
  shows "long_match n = Some (n, no_argument, v)" and "CHR ''='' \<notin> set n"
  using assms by (auto simp: long_options_def long_match_def)

lemma getopt_long_long_option:
  assumes "(n, h, v) \<in> set long_options"
  shows "getopt_long ((''--'' @ n) # rest) = deliver (v, None) (getopt_long rest)"
proof -
  from long_match_name [OF assms] have m: "long_match n = Some (n, no_argument, v)"
    and e: "CHR ''='' \<notin> set n" .
  from e have t: "takeWhile (\<lambda>c. c \<noteq> CHR ''='') n = n"
    by (induction n) auto
  from t m have lm: "long_match (takeWhile (\<lambda>c. c \<noteq> CHR ''='') n) = Some (n, no_argument, v)"
    by (simp only:)
  from assms have "n \<noteq> []"
    by (auto simp: long_options_def)
  then show ?thesis
    using e by (simp add: Let_def lm)
qed

lemma getopt_long_long_option_value:
  assumes "(n, h, v) \<in> set long_options"
  shows "getopt_long ((''--'' @ n @ ''='' @ x) # rest) =
    deliver (CHR ''?'', None) (getopt_long rest)"
proof -
  from long_match_name [OF assms] have m: "long_match n = Some (n, no_argument, v)"
    and e: "CHR ''='' \<notin> set n" .
  from e have t: "takeWhile (\<lambda>c. c \<noteq> CHR ''='') (n @ CHR ''='' # x) = n"
    by (induction n) auto
  from t m have lm: "long_match (takeWhile (\<lambda>c. c \<noteq> CHR ''='') (n @ CHR ''='' # x)) =
      Some (n, no_argument, v)"
    by (simp only:)
  show ?thesis
    by (simp add: Let_def lm)
qed

lemma getopt_long_timeout:
  "getopt_long (''--timeout'' # rest) = deliver (CHR ''t'', None) (getopt_long rest)"
  using getopt_long_long_option [of "''timeout''" no_argument "CHR ''t''" rest]
  by (simp add: long_options_def)

text \<open>
  \<^verbatim>\<open>-t\<close> or \<^verbatim>\<open>-i\<close> delivered with a null \<^verbatim>\<open>optarg\<close> ends the run at the dereference of
  the null pointer in \<^verbatim>\<open>strtol\<close>, and so does \<^verbatim>\<open>-m\<close> in \<^verbatim>\<open>strtok\<close> when no string has
  been scanned before.
\<close>

lemma main_option_null_optarg:
  assumes "c = CHR ''t'' \<or> c = CHR ''i''"
  shows "main_option pf (c, None) l w = (Inl NullPointer, w)"
  using assms by (auto simp: main_option_def safe_atoi_def)

lemma main_option_method_null_optarg:
  assumes "strtok_save w = None"
  shows "main_option pf (CHR ''m'', None) l w = (Inl NullPointer, w)"
  using assms
  by (simp add: main_option_def parse_check_method_def parse_check_method_loop.simps
      strtok_def strtok_input_def)

text \<open>
  So the command line \<^verbatim>\<open>--timeout 5 /mnt/nfs\<close> ends at the null pointer, with 5 left among
  the paths, and an option written \<^verbatim>\<open>--timeout=5\<close> is passed over: the run is that of the
  command line without it.
\<close>

lemma main_of_argv_long_timeout:
  "main_of_argv pf os (prog # ''--timeout'' # rest) ws w = Some (NullPointer, w)"
proof -
  obtain opts paths where g: "getopt_long rest = (opts, paths)"
    by (cases "getopt_long rest")
  have "main pf os ((CHR ''t'', None) # opts) paths ws w = Some (NullPointer, w)"
    by (simp add: main_def main_option_null_optarg)
  with g show ?thesis
    by (simp add: main_of_argv_def getopt_long_timeout deliver_def del: getopt_long.simps)
qed

lemma main_of_argv_long_option_value:
  assumes "(n, h, v) \<in> set long_options"
  shows "main_of_argv pf os (prog # (''--'' @ n @ ''='' @ x) # rest) ws w =
    main_of_argv pf os (prog # rest) ws w"
proof -
  obtain opts paths where g: "getopt_long rest = (opts, paths)"
    by (cases "getopt_long rest")
  have "main pf os ((CHR ''?'', None) # opts) paths ws w = main pf os opts paths ws w"
    by (simp add: main_def main_option_def)
  with g show ?thesis
    using getopt_long_long_option_value [OF assms, of x rest]
    by (simp add: main_of_argv_def deliver_def del: getopt_long.simps)
qed

section \<open>Classification of the Worker's termination\<close>

text \<open>
  C1. Whatever termination of the Worker \<^verbatim>\<open>waitpid\<close> reports, after any number of
  interrupted waits, \<^verbatim>\<open>wait_for_child\<close> returns: the exit status when the Worker exited
  normally, hence 0 exactly for exit status 0 and N for a nonzero status N;
  \<^verbatim>\<open>ETIMEDOUT\<close> when it was terminated by \<^verbatim>\<open>SIGKILL\<close>; and \<^verbatim>\<open>EUNKNOWN\<close> = 255 when it
  was terminated by any other signal, stopped or continued.
\<close>

theorem wait_for_child_classification:
  "map_option fst
     (wait_for_child pf t (replicate n (WaitFail (EINTR pf)) @ WaitOk (Exited c) # rest) w) =
     Some (Inr (WEXITSTATUS (Exited c))) \<and>
   (WEXITSTATUS (Exited c) = 0 \<longleftrightarrow> c mod 256 = 0) \<and>
   map_option fst
     (wait_for_child pf t (replicate n (WaitFail (EINTR pf)) @ WaitOk (Signaled s) # rest) w) =
     Some (Inr (if s = SIGKILL pf then ETIMEDOUT pf else 255)) \<and>
   map_option fst
     (wait_for_child pf t (replicate n (WaitFail (EINTR pf)) @ WaitOk (Stopped s) # rest) w) =
     Some (Inr 255) \<and>
   map_option fst
     (wait_for_child pf t (replicate n (WaitFail (EINTR pf)) @ WaitOk Continued # rest) w) =
     Some (Inr 255)"
proof -
  have a: "map_option fst
      (wait_for_child pf t (replicate n (WaitFail (EINTR pf)) @ WaitOk st # rest) w) =
      Some (Inr (if WIFEXITED st then WEXITSTATUS st
                 else if WIFSIGNALED st
                 then (if WTERMSIG st = SIGKILL pf then ETIMEDOUT pf else EUNKNOWN)
                 else EUNKNOWN))" for st
    using wait_for_child_observed [of pf t n st rest w] by auto
  show ?thesis
    by (simp add: a EUNKNOWN_def)
qed

theorem wait_for_child_classification_witness:
  "map_option fst
     (wait_for_child linux_lp64 2 [WaitFail 4, WaitOk (Exited 2)] supervisor_world) =
     Some (Inr 2) \<and>
   map_option fst
     (wait_for_child linux_lp64 2 [WaitFail 4, WaitOk (Signaled 9)] supervisor_world) =
     Some (Inr 110) \<and>
   map_option fst
     (wait_for_child linux_lp64 2 [WaitFail 4, WaitOk (Signaled 15)] supervisor_world) =
     Some (Inr 255)"
  using wait_for_child_classification [of linux_lp64 2 1 2 "[]" supervisor_world 9]
    wait_for_child_classification [of linux_lp64 2 1 2 "[]" supervisor_world 15]
  by (simp add: linux_lp64_def)

section \<open>The Timeout Guard\<close>

text \<open>
  C2. \<^verbatim>\<open>handle_sigalrm\<close> sends \<^verbatim>\<open>SIGKILL\<close> to the Worker if and only if a Worker is
  recorded (\<^verbatim>\<open>child > 0\<close>): with none recorded it returns with nothing done; with one
  recorded its only call is \<^verbatim>\<open>kill(child, SIGKILL)\<close>, and when that call fails the process
  ends with \<^verbatim>\<open>_exit(255)\<close>. Every call it makes, and its way of ending the process, is
  async-signal-safe.
\<close>

theorem handle_sigalrm_kills_recorded_child:
  "(child w \<le> 0 \<longrightarrow> handle_sigalrm pf os w = (Inr (), w)) \<and>
   trace (snd (handle_sigalrm pf os w)) =
     trace w @ (if 0 < child w then [Kill (child w) (SIGKILL pf)] else []) \<and>
   (0 < child w \<longrightarrow>
      fst (handle_sigalrm pf os w) =
        (case os_kill os (child w) (SIGKILL pf) of
           Fail e \<Rightarrow> Inl (UExit 255)
         | Ok v \<Rightarrow> Inr ())) \<and>
   (\<exists>cs. trace (snd (handle_sigalrm pf os w)) = trace w @ cs \<and> list_all async_signal_safe cs) \<and>
   (case fst (handle_sigalrm pf os w) of Inl h \<Rightarrow> async_signal_safe_halt h | Inr u \<Rightarrow> True)"
  by (auto simp: handle_sigalrm_def syscall_def EUNKNOWN_def split: sysres.splits)

theorem handle_sigalrm_kills_recorded_child_witness:
  "child initial_world \<le> 0 \<and>
   handle_sigalrm linux_lp64 healthy_os initial_world = (Inr (), initial_world) \<and>
   0 < child supervisor_world \<and>
   trace (snd (handle_sigalrm linux_lp64 (healthy_os\<lparr>os_kill := \<lambda>p s. Fail 3\<rparr>)
     supervisor_world)) = [Kill 4242 9] \<and>
   fst (handle_sigalrm linux_lp64 (healthy_os\<lparr>os_kill := \<lambda>p s. Fail 3\<rparr>) supervisor_world) =
     Inl (UExit 255)"
  using handle_sigalrm_kills_recorded_child [of initial_world linux_lp64 healthy_os]
    handle_sigalrm_kills_recorded_child
      [of supervisor_world linux_lp64 "healthy_os\<lparr>os_kill := \<lambda>p s. Fail 3\<rparr>"]
  by (simp add: initial_world_def supervisor_world_def linux_lp64_def healthy_os_def)

section \<open>Interrupted waits\<close>

text \<open>
  C3. A wait that is only ever interrupted (\<^verbatim>\<open>waitpid\<close> failing with \<^verbatim>\<open>EINTR\<close>) yields
  no result. A result of \<^verbatim>\<open>wait_for_child\<close> comes only from a run in which, after some
  number of interrupted waits that were each retried, \<^verbatim>\<open>waitpid\<close> reported the Worker's
  status; and every such run does yield a result. In each of them the alarm is cancelled:
  the calls are \<^verbatim>\<open>alarm(timeout)\<close>, the waits, and \<^verbatim>\<open>alarm(0)\<close> last, whatever the status.
\<close>

theorem wait_for_child_retries:
  "wait_for_child pf t (replicate n (WaitFail (EINTR pf))) w = None \<and>
   (\<forall>code w'. wait_for_child pf t ws w = Some (Inr code, w') \<longrightarrow>
      (\<exists>n st rest. ws = replicate n (WaitFail (EINTR pf)) @ WaitOk st # rest \<and>
         timer w' = 0 \<and>
         trace w' = trace w @ Alarm t # replicate (Suc n) (Waitpid (child w)) @ [Alarm 0])) \<and>
   (\<forall>n st rest. ws = replicate n (WaitFail (EINTR pf)) @ WaitOk st # rest \<longrightarrow>
      (\<exists>code w'. wait_for_child pf t ws w = Some (Inr code, w') \<and> timer w' = 0 \<and>
         trace w' = trace w @ Alarm t # replicate (Suc n) (Waitpid (child w)) @ [Alarm 0]))"
proof (intro conjI allI impI)
  show "wait_for_child pf t (replicate n (WaitFail (EINTR pf))) w = None"
    by (simp add: wait_for_child_def waitpid_loop_all_interrupted)
next
  fix code w'
  assume a: "wait_for_child pf t ws w = Some (Inr code, w')"
  then obtain st w1 where l: "waitpid_loop pf ws (alarm t w) = Some (Inr st, w1)"
    and w': "w' = alarm 0 w1"
    by (auto simp: wait_for_child_def Let_def split: option.splits sum.splits prod.splits)
  from waitpid_loop_shape [OF l] obtain n rest where
    "ws = replicate n (WaitFail (EINTR pf)) @ WaitOk st # rest"
    "trace w1 = trace (alarm t w) @ replicate (Suc n) (Waitpid (child (alarm t w)))"
    by blast
  then show "\<exists>n st rest. ws = replicate n (WaitFail (EINTR pf)) @ WaitOk st # rest \<and>
         timer w' = 0 \<and>
         trace w' = trace w @ Alarm t # replicate (Suc n) (Waitpid (child w)) @ [Alarm 0]"
    by (intro exI [of _ n] exI [of _ st] exI [of _ rest]) (simp add: w' alarm_def)
next
  fix n st rest
  assume "ws = replicate n (WaitFail (EINTR pf)) @ WaitOk st # rest"
  then show "\<exists>code w'. wait_for_child pf t ws w = Some (Inr code, w') \<and> timer w' = 0 \<and>
         trace w' = trace w @ Alarm t # replicate (Suc n) (Waitpid (child w)) @ [Alarm 0]"
    using wait_for_child_observed [of pf t n st rest w] by blast
qed

theorem wait_for_child_retries_witness:
  "wait_for_child linux_lp64 2 [WaitFail 4, WaitFail 4, WaitFail 4] supervisor_world = None \<and>
   (\<exists>code w'. wait_for_child linux_lp64 2 [WaitFail 4, WaitFail 4, WaitOk (Exited 2)]
        supervisor_world = Some (Inr code, w') \<and> timer w' = 0 \<and>
      trace w' = [Alarm 2, Waitpid 4242, Waitpid 4242, Waitpid 4242, Alarm 0])"
proof -
  have e: "EINTR linux_lp64 = 4" and c: "child supervisor_world = 4242"
    and t: "trace supervisor_world = []"
    by (simp_all add: linux_lp64_def supervisor_world_def initial_world_def)
  have r3: "replicate 3 (WaitFail (4::int)) = [WaitFail 4, WaitFail 4, WaitFail 4]"
    by (simp add: numeral_3_eq_3)
  have r2: "[WaitFail 4, WaitFail 4, WaitOk (Exited 2)] =
      replicate 2 (WaitFail (EINTR linux_lp64)) @ WaitOk (Exited 2) # []"
    by (simp add: numeral_2_eq_2 e)
  note th = wait_for_child_retries
    [of linux_lp64 2 3 supervisor_world "[WaitFail 4, WaitFail 4, WaitOk (Exited 2)]"]
  from th have "wait_for_child linux_lp64 2 [WaitFail 4, WaitFail 4, WaitFail 4]
      supervisor_world = None"
    by (simp add: e r3)
  moreover from th [THEN conjunct2, THEN conjunct2, rule_format, OF r2]
  have "\<exists>code w'. wait_for_child linux_lp64 2
        [WaitFail 4, WaitFail 4, WaitOk (Exited 2)] supervisor_world = Some (Inr code, w') \<and>
      timer w' = 0 \<and>
      trace w' = [Alarm 2, Waitpid 4242, Waitpid 4242, Waitpid 4242, Alarm 0]"
    by (simp add: c t numeral_2_eq_2)
  ultimately show ?thesis
    by simp
qed

section \<open>The order of the probes\<close>

text \<open>
  C4. With both probes selected, the calls of the status probe come first and every later
  call belongs to the directory-listing probe; when the status probe returns a nonzero code,
  \<^verbatim>\<open>check_mountpoint\<close> returns that code in the state the status probe left, so that the
  directory-listing probe made no call. For every method set, \<^verbatim>\<open>check_mountpoint\<close>
  returns 0 only if each selected probe returned 0.
\<close>

theorem check_mountpoint_stat_first:
  "(m AND CHECK_METHOD_STAT \<noteq> 0 \<and> m AND CHECK_METHOD_READDIR \<noteq> 0 \<longrightarrow>
      (\<exists>cs cs'. trace (snd (check_mountpoint_stat os path w)) = trace w @ Open path # cs \<and>
         list_all stat_probe_call cs \<and>
         trace (snd (check_mountpoint os path m w)) =
           trace (snd (check_mountpoint_stat os path w)) @ cs' \<and>
         list_all readdir_probe_call cs') \<and>
      (fst (check_mountpoint_stat os path w) \<noteq> 0 \<longrightarrow>
         check_mountpoint os path m w = check_mountpoint_stat os path w)) \<and>
   (fst (check_mountpoint os path m w) = 0 \<longrightarrow>
      (m AND CHECK_METHOD_STAT \<noteq> 0 \<longrightarrow>
         fst (check_mountpoint_stat os path w) = 0) \<and>
      (m AND CHECK_METHOD_READDIR \<noteq> 0 \<longrightarrow>
         fst (check_mountpoint_readdir os path
           (if m AND CHECK_METHOD_STAT \<noteq> 0
            then snd (check_mountpoint_stat os path w) else w)) = 0))"
proof -
  obtain r1 w1 where s: "check_mountpoint_stat os path w = (r1, w1)"
    by (cases "check_mountpoint_stat os path w")
  obtain r2 w2 where r: "check_mountpoint_readdir os path w1 = (r2, w2)"
    by (cases "check_mountpoint_readdir os path w1")
  obtain r3 w3 where r': "check_mountpoint_readdir os path w = (r3, w3)"
    by (cases "check_mountpoint_readdir os path w")
  from check_mountpoint_stat_trace [of os path w] s obtain cs where
    cs: "trace w1 = trace w @ Open path # cs" "list_all stat_probe_call cs"
    by auto
  from check_mountpoint_readdir_trace [of os path w1] r obtain cs' where
    cs': "trace w2 = trace w1 @ Opendir path # cs'" "list_all readdir_probe_call cs'"
    by auto
  show ?thesis
    using cs cs'
    by (auto simp: check_mountpoint_def s r r')
qed

theorem check_mountpoint_stat_first_witness:
  "3 AND CHECK_METHOD_STAT \<noteq> 0 \<and> 3 AND CHECK_METHOD_READDIR \<noteq> 0 \<and>
   fst (check_mountpoint_stat (healthy_os\<lparr>os_open := \<lambda>p. Fail 2\<rparr>) ''/mnt/nfs'' initial_world) \<noteq> 0 \<and>
   check_mountpoint (healthy_os\<lparr>os_open := \<lambda>p. Fail 2\<rparr>) ''/mnt/nfs'' 3 initial_world =
     (2, initial_world\<lparr>errno := 2, trace := [Open ''/mnt/nfs'']\<rparr>) \<and>
   fst (check_mountpoint healthy_os ''/mnt/nfs'' 3 initial_world) = 0 \<and>
   fst (check_mountpoint_stat healthy_os ''/mnt/nfs'' initial_world) = 0 \<and>
   fst (check_mountpoint_readdir healthy_os ''/mnt/nfs''
     (snd (check_mountpoint_stat healthy_os ''/mnt/nfs'' initial_world))) = 0"
proof -
  have b: "(3::int) AND CHECK_METHOD_STAT \<noteq> 0" "(3::int) AND CHECK_METHOD_READDIR \<noteq> 0"
    by (simp_all add: CHECK_METHOD_STAT_def CHECK_METHOD_READDIR_def)
  have f: "fst (check_mountpoint_stat (healthy_os\<lparr>os_open := \<lambda>p. Fail 2\<rparr>) ''/mnt/nfs''
      initial_world) \<noteq> 0"
    and e: "check_mountpoint_stat (healthy_os\<lparr>os_open := \<lambda>p. Fail 2\<rparr>) ''/mnt/nfs''
      initial_world = (2, initial_world\<lparr>errno := 2, trace := [Open ''/mnt/nfs'']\<rparr>)"
    by (simp_all add: check_mountpoint_stat_def syscall_def healthy_os_def initial_world_def)
  have z: "fst (check_mountpoint healthy_os ''/mnt/nfs'' 3 initial_world) = 0"
    using b by (simp add: check_mountpoint_def check_mountpoint_stat_def
        check_mountpoint_readdir_def sys_readdir_def syscall_def healthy_os_def)
  note t1 = check_mountpoint_stat_first
    [of 3 "healthy_os\<lparr>os_open := \<lambda>p. Fail 2\<rparr>" "''/mnt/nfs''" initial_world]
  note t2 = check_mountpoint_stat_first [of 3 healthy_os "''/mnt/nfs''" initial_world]
  from t1 b f have "check_mountpoint (healthy_os\<lparr>os_open := \<lambda>p. Fail 2\<rparr>) ''/mnt/nfs'' 3
      initial_world = check_mountpoint_stat (healthy_os\<lparr>os_open := \<lambda>p. Fail 2\<rparr>) ''/mnt/nfs''
      initial_world"
    by blast
  moreover from t2 b z have "fst (check_mountpoint_stat healthy_os ''/mnt/nfs'' initial_world) = 0 \<and>
    fst (check_mountpoint_readdir healthy_os ''/mnt/nfs''
     (snd (check_mountpoint_stat healthy_os ''/mnt/nfs'' initial_world))) = 0"
    by simp
  ultimately show ?thesis
    using b f z e by simp
qed

section \<open>Suppressed codes\<close>

text \<open>
  For a code \<open>C\<close> inside the table, 0 \<le> \<open>C\<close> \<le> 255, \<^verbatim>\<open>-i C\<close> anywhere among the options
  leaves the classified outcome of every run as it was, changes the final exit status to 0
  on the runs whose classified outcome is \<open>C\<close>, and leaves the result of every other run
  unchanged; in every run the calls made, and so the probes and their order, are the same
  with and without the option.
\<close>

lemma ignore_errno_translation:
  assumes "main_options pf opts1 initial_locals w = (Inr l1, w1)"
    and "safe_atoi pf (Some s) w1 = (Inr C, w1')"
    and "0 \<le> C" and "C \<le> 255"
  shows "classified_outcome pf os (opts1 @ (CHR ''i'', Some s) # opts2) paths ws w =
      classified_outcome pf os (opts1 @ opts2) paths ws w \<and>
    main pf os (opts1 @ (CHR ''i'', Some s) # opts2) paths ws w =
      (if classified_outcome pf os (opts1 @ opts2) paths ws w = Some C
       then map_option (\<lambda>(h, w'). (Exit 0, w')) (main pf os (opts1 @ opts2) paths ws w)
       else main pf os (opts1 @ opts2) paths ws w) \<and>
    map_option (\<lambda>(h, w'). trace w') (main pf os (opts1 @ (CHR ''i'', Some s) # opts2) paths ws w) =
      map_option (\<lambda>(h, w'). trace w') (main pf os (opts1 @ opts2) paths ws w)"
proof -
  from safe_atoi_result [OF assms(2)] have w1': "w1' = w1" by simp
  from main_options_length [OF assms(1)] have len: "length (exitcode_map l1) = 256"
    by (simp add: initial_locals_def length_init_exitcode_map)
  let ?l1' = "l1\<lparr>exitcode_map := (exitcode_map l1)[nat C := 0]\<rparr>"
  have i: "main_option pf (CHR ''i'', Some s) l1 w1 = (Inr ?l1', w1)"
    using assms(2-4) len by (simp add: main_option_def array_store_def w1')
  have without: "main_options pf (opts1 @ opts2) initial_locals w = main_options pf opts2 l1 w1"
    by (simp add: main_options_append assms(1))
  have "with": "main_options pf (opts1 @ (CHR ''i'', Some s) # opts2) initial_locals w =
      main_options pf opts2 ?l1' w1"
    by (simp add: main_options_append assms(1) i)
  obtain r2 w2 where o: "main_options pf opts2 l1 w1 = (r2, w2)"
    by (cases "main_options pf opts2 l1 w1")
  show ?thesis
  proof (cases r2)
    case (Inl h)
    then show ?thesis
      by (simp add: main_def classified_outcome_def without "with" main_options_suppressed o)
  next
    case (Inr l2)
    from main_options_length [of pf opts2 l1 w1 l2 w2] o Inr len
    have len2: "C < int (length (exitcode_map l2))"
      using assms(4) by simp
    let ?l = "default_check_method l2"
    note defs = main_def classified_outcome_def without "with" main_options_suppressed o Inr
      default_check_method_suppressed main_run_suppressed Let_def
    have dm: "exitcode_map ?l = exitcode_map l2"
      by (simp add: default_check_method_def)
    note al = array_load_suppressed [OF assms(3) len2]
    have ac: "array_load (exitcode_map l2) C = Inr (exitcode_map l2 ! nat C)"
      using assms(3) len2 by (simp add: array_load_def)
    show ?thesis
    proof (cases "main_run pf os paths ws ?l w2")
      case None
      then show ?thesis by (simp add: defs)
    next
      case (Some x)
      obtain r3 w3 where x: "x = (r3, w3)" by (cases x)
      show ?thesis
      proof (cases r3)
        case (Inl h)
        then show ?thesis by (simp add: defs Some x)
      next
        case ret: (Inr ret)
        show ?thesis
        proof (cases "ret = C")
          case True
          then show ?thesis by (simp add: defs Some x ret dm al ac)
        next
          case False
          then show ?thesis
            by (simp add: defs Some x ret dm al split: sum.splits)
        qed
      qed
    qed
  qed
qed

text \<open>
  C5: for any code \<open>C\<close>, supplying \<^verbatim>\<open>-i C\<close> changes the final exit status to 0 exactly on
  the runs whose classified outcome is \<open>C\<close> and leaves the exit status of every other run
  unchanged. The code does so for \<^verbatim>\<open>-i 2\<close>, but not for \<^verbatim>\<open>-i 100000\<close>: the run of
  \<^verbatim>\<open>-i 100000 /mnt/nfs\<close> whose classified outcome is 2, and whose exit status without the
  option is 2, does not end with exit status 2. \<^verbatim>\<open>safe_atoi\<close> accepts 100000, and the
  option loop writes \<^verbatim>\<open>exitcode_map[100000]\<close>, outside the 256 entries of the array,
  without a check of the index.
\<close>

theorem ignore_errno_100000_out_of_bounds:
  "getopt_long [''-i'', ''100000'', ''/mnt/nfs''] =
     ([(CHR ''i'', Some ''100000'')], [''/mnt/nfs'']) \<and>
   safe_atoi linux_lp64 (Some ''100000'') initial_world = (Inr 100000, initial_world) \<and>
   length (exitcode_map initial_locals) = 256 \<and>
   classified_outcome linux_lp64 healthy_os [] [''/mnt/nfs''] [WaitOk (Exited 2)] initial_world =
     Some 2 \<and>
   map_option fst (main linux_lp64 healthy_os [] [''/mnt/nfs''] [WaitOk (Exited 2)]
     initial_world) = Some (Exit 2) \<and>
   map_option fst (main linux_lp64 healthy_os [(CHR ''i'', Some ''2'')] [''/mnt/nfs'']
     [WaitOk (Exited 2)] initial_world) = Some (Exit 0) \<and>
   map_option fst (main linux_lp64 healthy_os [(CHR ''i'', Some ''100000'')] [''/mnt/nfs'']
     [WaitOk (Exited 2)] initial_world) = Some (OutOfBounds 100000)"
proof -
  have g: "getopt_long [''-i'', ''100000'', ''/mnt/nfs''] =
      ([(CHR ''i'', Some ''100000'')], [''/mnt/nfs''])"
    by (simp add: optstring_def Let_def)
  have a: "safe_atoi linux_lp64 (Some ''100000'') initial_world = (Inr 100000, initial_world)"
    by (simp add: safe_atoi_def strtol_def isspace_def isdigit_def digits_value_def
        linux_lp64_def initial_world_def Let_def)
  have l: "length (exitcode_map initial_locals) = 256"
    by (simp add: initial_locals_def length_init_exitcode_map)
  note defs = classified_outcome_def main_def main_run_def main_option_def safe_atoi_def
      strtol_def isspace_def isdigit_def digits_value_def array_store_def array_load_def
      initial_locals_def length_init_exitcode_map init_exitcode_map_eq default_check_method_def
      wait_for_child_def alarm_def syscall_def healthy_os_def linux_lp64_def initial_world_def
      CHECK_METHOD_STAT_def CHECK_METHOD_READDIR_def Let_def
  have c: "classified_outcome linux_lp64 healthy_os [] [''/mnt/nfs''] [WaitOk (Exited 2)]
      initial_world = Some 2"
    by (simp add: defs)
  have m: "map_option fst (main linux_lp64 healthy_os [] [''/mnt/nfs''] [WaitOk (Exited 2)]
      initial_world) = Some (Exit 2)"
    by (simp add: defs)
  have m2: "map_option fst (main linux_lp64 healthy_os [(CHR ''i'', Some ''2'')] [''/mnt/nfs'']
      [WaitOk (Exited 2)] initial_world) = Some (Exit 0)"
    by (simp add: defs)
  have b: "map_option fst (main linux_lp64 healthy_os [(CHR ''i'', Some ''100000'')]
      [''/mnt/nfs''] [WaitOk (Exited 2)] initial_world) = Some (OutOfBounds 100000)"
    by (simp add: defs)
  from g a l c m m2 b show ?thesis
    by blast
qed

section \<open>The sentinels and the failure codes of the probes\<close>

text \<open>
  C6 as stated makes each sentinel distinct from every failure code a probe can return. When
  \<^verbatim>\<open>open\<close> fails with the error number 110, which is \<^verbatim>\<open>ETIMEDOUT\<close> on Linux, the status
  probe returns 110; the Worker exits with it and the Supervisor reports 110, the value it
  also reports for a Worker killed by \<^verbatim>\<open>SIGKILL\<close>.
\<close>

theorem probe_failure_equals_timeout_sentinel:
  "posix_os (healthy_os\<lparr>os_open := \<lambda>p. Fail 110\<rparr>) \<and>
   fst (check_mountpoint_stat (healthy_os\<lparr>os_open := \<lambda>p. Fail 110\<rparr>) ''/mnt/nfs''
     initial_world) = ETIMEDOUT linux_lp64 \<and>
   map_option fst (wait_for_child linux_lp64 2 [WaitOk (Exited 110)] supervisor_world) =
     Some (Inr (ETIMEDOUT linux_lp64)) \<and>
   map_option fst (wait_for_child linux_lp64 2 [WaitOk (Signaled 9)] supervisor_world) =
     Some (Inr (ETIMEDOUT linux_lp64))"
  by (simp add: posix_os_def failure_is_errno_def system_errno_def healthy_os_def
      check_mountpoint_stat_def syscall_def linux_lp64_def wait_for_child_def alarm_def)

text \<open>
  C6, amended. The two sentinels differ from each other. \<^verbatim>\<open>EUNKNOWN\<close> = 255 differs from
  every code a probe can return, and from the exit status the Worker passes on, when the
  failures of the operating system report system failure numbers (1 to 254). The timeout
  sentinel is the system failure number \<^verbatim>\<open>ETIMEDOUT\<close> itself, which the status probe returns
  when a call fails with it.
\<close>

theorem sentinels_and_probe_codes:
  "(posix_platform pf \<longrightarrow> ETIMEDOUT pf \<noteq> EUNKNOWN) \<and>
   (posix_os os \<and> 0 \<le> errno w \<and> errno w \<le> 254 \<longrightarrow>
      fst (check_mountpoint_stat os path w) \<noteq> EUNKNOWN \<and>
      fst (check_mountpoint_readdir os path w) \<noteq> EUNKNOWN \<and>
      fst (check_mountpoint os path m w) \<noteq> EUNKNOWN \<and>
      WEXITSTATUS (Exited (fst (check_mountpoint os path m w))) \<noteq> EUNKNOWN) \<and>
   (posix_platform pf \<longrightarrow>
      (\<exists>os'. posix_os os' \<and> fst (check_mountpoint_stat os' path w) = ETIMEDOUT pf))"
proof (intro conjI impI)
  assume "posix_platform pf"
  then show "ETIMEDOUT pf \<noteq> EUNKNOWN"
    by (simp add: posix_platform_def system_errno_def EUNKNOWN_def)
next
  assume a: "posix_os os \<and> 0 \<le> errno w \<and> errno w \<le> 254"
  then have p: "posix_os os" and e: "0 \<le> errno w" "errno w \<le> 254"
    by simp_all
  from check_mountpoint_stat_range [OF p, of path w]
  show "fst (check_mountpoint_stat os path w) \<noteq> EUNKNOWN"
    by (simp add: EUNKNOWN_def)
  from check_mountpoint_readdir_range [OF p e, of path]
  show "fst (check_mountpoint_readdir os path w) \<noteq> EUNKNOWN"
    by (simp add: EUNKNOWN_def)
  from check_mountpoint_range [OF p e, of path m]
  show "fst (check_mountpoint os path m w) \<noteq> EUNKNOWN"
    and "WEXITSTATUS (Exited (fst (check_mountpoint os path m w))) \<noteq> EUNKNOWN"
    by (simp_all add: EUNKNOWN_def)
next
  assume pf: "posix_platform pf"
  let ?os = "healthy_os\<lparr>os_open := \<lambda>p. Fail (ETIMEDOUT pf)\<rparr>"
  from pf have "posix_os ?os"
    by (simp add: posix_os_def failure_is_errno_def posix_platform_def healthy_os_def)
  moreover have "fst (check_mountpoint_stat ?os path w) = ETIMEDOUT pf"
    by (simp add: check_mountpoint_stat_def syscall_def healthy_os_def)
  ultimately show "\<exists>os'. posix_os os' \<and> fst (check_mountpoint_stat os' path w) = ETIMEDOUT pf"
    by blast
qed

theorem sentinels_and_probe_codes_witness:
  "posix_platform linux_lp64 \<and> ETIMEDOUT linux_lp64 \<noteq> EUNKNOWN \<and>
   posix_os (healthy_os\<lparr>os_open := \<lambda>p. Fail 2\<rparr>) \<and>
   0 \<le> errno initial_world \<and> errno initial_world \<le> 254 \<and>
   fst (check_mountpoint (healthy_os\<lparr>os_open := \<lambda>p. Fail 2\<rparr>) ''/mnt/nfs'' 3 initial_world) \<noteq>
     EUNKNOWN \<and>
   (\<exists>os'. posix_os os' \<and>
      fst (check_mountpoint_stat os' ''/mnt/nfs'' initial_world) = ETIMEDOUT linux_lp64)"
proof -
  let ?os = "healthy_os\<lparr>os_open := \<lambda>p. Fail 2\<rparr>"
  have p: "posix_os ?os"
    by (simp add: posix_os_def failure_is_errno_def system_errno_def healthy_os_def)
  have e: "0 \<le> errno initial_world \<and> errno initial_world \<le> 254"
    by (simp add: initial_world_def)
  note th = sentinels_and_probe_codes [of linux_lp64 ?os initial_world "''/mnt/nfs''" 3]
  from th posix_platform_linux_lp64 p e show ?thesis
    by blast
qed

section \<open>The status probe\<close>

text \<open>
  C7 as stated says that after a failing step the remaining steps are skipped. When
  \<^verbatim>\<open>fstat\<close> fails on the descriptor 3 with error 5, \<^verbatim>\<open>close(3)\<close> is still called before
  5 is returned.
\<close>

theorem check_mountpoint_stat_closes_after_fstat_failure:
  "os_fstat (healthy_os\<lparr>os_fstat := \<lambda>fd. Fail 5\<rparr>) 3 = Fail 5 \<and>
   check_mountpoint_stat (healthy_os\<lparr>os_fstat := \<lambda>fd. Fail 5\<rparr>) ''/mnt/nfs'' initial_world =
     (5, initial_world\<lparr>errno := 5, trace := [Open ''/mnt/nfs'', Fstat 3, Close 3]\<rparr>) \<and>
   Close 3 \<in> set (trace (snd (check_mountpoint_stat (healthy_os\<lparr>os_fstat := \<lambda>fd. Fail 5\<rparr>)
     ''/mnt/nfs'' initial_world)))"
  by (simp add: check_mountpoint_stat_def syscall_def healthy_os_def initial_world_def)

text \<open>
  C7, amended. On an operating system whose failures report system failure numbers, the status
  probe returns 0 if and only if \<^verbatim>\<open>open\<close>, \<^verbatim>\<open>fstat\<close> and \<^verbatim>\<open>close\<close> all succeed. The
  first failing step's error number is the one returned: when \<^verbatim>\<open>open\<close> fails no other call
  is made; when \<^verbatim>\<open>fstat\<close> fails the descriptor is still closed, and the outcome of that
  \<^verbatim>\<open>close\<close> is ignored; when \<^verbatim>\<open>close\<close> fails its error number is returned.
\<close>

theorem check_mountpoint_stat_steps:
  "(posix_os os \<longrightarrow>
      (fst (check_mountpoint_stat os path w) = 0 \<longleftrightarrow>
         (\<exists>fd. os_open os path = Ok fd \<and> succeeded (os_fstat os fd) \<and>
            succeeded (os_close os fd)))) \<and>
   (\<forall>e. os_open os path = Fail e \<longrightarrow>
      fst (check_mountpoint_stat os path w) = e \<and>
      trace (snd (check_mountpoint_stat os path w)) = trace w @ [Open path]) \<and>
   (\<forall>fd e. os_open os path = Ok fd \<and> os_fstat os fd = Fail e \<longrightarrow>
      fst (check_mountpoint_stat os path w) = e \<and>
      trace (snd (check_mountpoint_stat os path w)) = trace w @ [Open path, Fstat fd, Close fd]) \<and>
   (\<forall>fd v e. os_open os path = Ok fd \<and> os_fstat os fd = Ok v \<and> os_close os fd = Fail e \<longrightarrow>
      fst (check_mountpoint_stat os path w) = e \<and>
      trace (snd (check_mountpoint_stat os path w)) = trace w @ [Open path, Fstat fd, Close fd])"
proof (intro conjI allI impI)
  assume p: "posix_os os"
  have nz: "r = Fail e \<Longrightarrow> failure_is_errno r \<Longrightarrow> e \<noteq> 0" for r e
    by (auto simp: failure_is_errno_def system_errno_def)
  from p have o: "failure_is_errno (os_open os path)"
    and f: "failure_is_errno (os_fstat os fd)" and c: "failure_is_errno (os_close os fd)" for fd
    by (simp_all add: posix_os_def)
  show "fst (check_mountpoint_stat os path w) = 0 \<longleftrightarrow>
      (\<exists>fd. os_open os path = Ok fd \<and> succeeded (os_fstat os fd) \<and> succeeded (os_close os fd))"
    using nz [OF _ o] nz [OF _ f] nz [OF _ c]
    by (auto simp: check_mountpoint_stat_def syscall_def succeeded_def Let_def
        split: sysres.splits)
qed (auto simp: check_mountpoint_stat_def syscall_def Let_def split: sysres.splits)

theorem check_mountpoint_stat_steps_witness:
  "posix_os (healthy_os\<lparr>os_fstat := \<lambda>fd. Fail 5\<rparr>) \<and>
   \<not> succeeded (os_fstat (healthy_os\<lparr>os_fstat := \<lambda>fd. Fail 5\<rparr>) 3) \<and>
   os_open (healthy_os\<lparr>os_fstat := \<lambda>fd. Fail 5\<rparr>) ''/mnt/nfs'' = Ok 3 \<and>
   fst (check_mountpoint_stat (healthy_os\<lparr>os_fstat := \<lambda>fd. Fail 5\<rparr>) ''/mnt/nfs''
     initial_world) \<noteq> 0 \<and>
   fst (check_mountpoint_stat (healthy_os\<lparr>os_fstat := \<lambda>fd. Fail 5\<rparr>) ''/mnt/nfs''
     initial_world) = 5 \<and>
   trace (snd (check_mountpoint_stat (healthy_os\<lparr>os_fstat := \<lambda>fd. Fail 5\<rparr>) ''/mnt/nfs''
     initial_world)) = [Open ''/mnt/nfs'', Fstat 3, Close 3]"
proof -
  let ?os = "healthy_os\<lparr>os_fstat := \<lambda>fd. Fail 5\<rparr>"
  have p: "posix_os ?os"
    by (simp add: posix_os_def failure_is_errno_def system_errno_def healthy_os_def)
  have o: "os_open ?os ''/mnt/nfs'' = Ok 3 \<and> os_fstat ?os 3 = Fail 5"
    by (simp add: healthy_os_def)
  note th = check_mountpoint_stat_steps [of ?os "''/mnt/nfs''" initial_world]
  from th [THEN conjunct1, rule_format, OF p]
  have "fst (check_mountpoint_stat ?os ''/mnt/nfs'' initial_world) \<noteq> 0"
    by (simp add: succeeded_def healthy_os_def)
  with th [THEN conjunct2, THEN conjunct2, THEN conjunct1, rule_format, OF o]
  show ?thesis
    using p o by (simp add: succeeded_def initial_world_def)
qed

section \<open>Bounds of the table of exit codes\<close>

text \<open>
  C8. On a platform whose \<^verbatim>\<open>ETIMEDOUT\<close> is a system failure number, the value
  \<^verbatim>\<open>wait_for_child\<close> returns, which indexes the read of \<^verbatim>\<open>exitcode_map\<close>, lies in
  [0, 255], and the only access outside the 256 entries that any run of \<^verbatim>\<open>main\<close> makes is
  the write of an \<^verbatim>\<open>-i\<close> option. That write uses the value \<open>N\<close> of \<^verbatim>\<open>safe_atoi\<close> as it
  is: it updates entry \<open>N\<close> when 0 \<le> \<open>N\<close> \<le> 255 and is outside the array otherwise, and
  \<^verbatim>\<open>safe_atoi\<close> does accept values outside that range, such as 256 and -1. The loop that
  fills the array writes the entries 0 to 255.
\<close>

theorem exitcode_map_bounds:
  "posix_platform pf \<longrightarrow>
     (\<forall>ret w'. wait_for_child pf t ws w = Some (Inr ret, w') \<longrightarrow> 0 \<le> ret \<and> ret \<le> 255) \<and>
     (\<forall>i w'. main pf os opts paths ws w = Some (OutOfBounds i, w') \<longrightarrow>
        (i < 0 \<or> 255 < i) \<and>
        (\<exists>s w0. (CHR ''i'', Some s) \<in> set opts \<and> fst (safe_atoi pf (Some s) w0) = Inr i)) \<and>
     (\<forall>N w1. length (exitcode_map l) = 256 \<and> safe_atoi pf (Some s) w = (Inr N, w1) \<longrightarrow>
        main_option pf (CHR ''i'', Some s) l w =
          (if 0 \<le> N \<and> N \<le> 255
           then (Inr (l\<lparr>exitcode_map := (exitcode_map l)[nat N := 0]\<rparr>), w1)
           else (Inl (OutOfBounds N), w1))) \<and>
     (errno w \<noteq> ERANGE pf \<longrightarrow>
        safe_atoi pf (Some ''256'') w = (Inr 256, w) \<and>
        safe_atoi pf (Some ''-1'') w = (Inr (- 1), w)) \<and>
     init_exitcode_map = map int [0..<256]"
proof (intro impI conjI allI)
  fix ret w'
  assume "posix_platform pf" and "wait_for_child pf t ws w = Some (Inr ret, w')"
  then show "0 \<le> ret" and "ret \<le> 255"
    using wait_for_child_range by blast+
next
  fix i w'
  assume "posix_platform pf" and "main pf os opts paths ws w = Some (OutOfBounds i, w')"
  from main_out_of_bounds [OF this]
  show "i < 0 \<or> 255 < i"
    and "\<exists>s w0. (CHR ''i'', Some s) \<in> set opts \<and> fst (safe_atoi pf (Some s) w0) = Inr i"
    by simp_all
next
  fix N w1
  assume "length (exitcode_map l) = 256 \<and> safe_atoi pf (Some s) w = (Inr N, w1)"
  then show "main_option pf (CHR ''i'', Some s) l w =
          (if 0 \<le> N \<and> N \<le> 255
           then (Inr (l\<lparr>exitcode_map := (exitcode_map l)[nat N := 0]\<rparr>), w1)
           else (Inl (OutOfBounds N), w1))"
    by (auto simp: main_option_def array_store_def)
next
  assume "posix_platform pf" and "errno w \<noteq> ERANGE pf"
  then show "safe_atoi pf (Some ''256'') w = (Inr 256, w)"
    and "safe_atoi pf (Some ''-1'') w = (Inr (- 1), w)"
    by (rule safe_atoi_256)+
next
  show "init_exitcode_map = map int [0..<256]"
    by (rule init_exitcode_map_eq)
qed

theorem exitcode_map_bounds_witness:
  "posix_platform linux_lp64 \<and>
   wait_for_child linux_lp64 2 [WaitOk (Signaled 15)] supervisor_world =
     Some (Inr 255, supervisor_world\<lparr>trace := [Alarm 2, Waitpid 4242, Alarm 0]\<rparr>) \<and>
   (0::int) \<le> 255 \<and> (255::int) \<le> 255 \<and>
   length (exitcode_map initial_locals) = 256 \<and>
   errno initial_world \<noteq> ERANGE linux_lp64 \<and>
   safe_atoi linux_lp64 (Some ''256'') initial_world = (Inr 256, initial_world) \<and>
   main_option linux_lp64 (CHR ''i'', Some ''256'') initial_locals initial_world =
     (Inl (OutOfBounds 256), initial_world) \<and>
   main linux_lp64 healthy_os [(CHR ''i'', Some ''256'')] [''/mnt/nfs''] [] initial_world =
     Some (OutOfBounds 256, initial_world)"
proof -
  have w: "wait_for_child linux_lp64 2 [WaitOk (Signaled 15)] supervisor_world =
     Some (Inr 255, supervisor_world\<lparr>trace := [Alarm 2, Waitpid 4242, Alarm 0]\<rparr>)"
    by (simp add: wait_for_child_def alarm_def supervisor_world_def initial_world_def
        linux_lp64_def EUNKNOWN_def)
  have len: "length (exitcode_map initial_locals) = 256"
    by (simp add: initial_locals_def length_init_exitcode_map)
  have e: "errno initial_world \<noteq> ERANGE linux_lp64"
    by (simp add: initial_world_def linux_lp64_def)
  note th = exitcode_map_bounds [of linux_lp64 2 "[WaitOk (Signaled 15)]" initial_world
      healthy_os "[(CHR ''i'', Some ''256'')]" "[''/mnt/nfs'']" initial_locals "''256''",
      rule_format, OF posix_platform_linux_lp64]
  from th e have s: "safe_atoi linux_lp64 (Some ''256'') initial_world = (Inr 256, initial_world)"
    by blast
  from th len s
  have o: "main_option linux_lp64 (CHR ''i'', Some ''256'') initial_locals initial_world =
     (Inl (OutOfBounds 256), initial_world)"
    by simp
  then have m: "main linux_lp64 healthy_os [(CHR ''i'', Some ''256'')] [''/mnt/nfs''] []
      initial_world = Some (OutOfBounds 256, initial_world)"
    by (simp add: main_def)
  from w len e s o m posix_platform_linux_lp64 show ?thesis
    by simp
qed

section \<open>The timeout argument\<close>

text \<open>
  C9 as stated makes the process exit with \<^verbatim>\<open>EINVAL\<close> exactly when the argument of
  \<^verbatim>\<open>-t\<close> is not an integer, and every accepted value positive. The argument \<^verbatim>\<open>-5s\<close> is not
  an integer, yet it is accepted: the run of \<^verbatim>\<open>-t -5s /mnt/nfs\<close> goes on to \<^verbatim>\<open>alarm(-5)\<close>
  and the wait. The argument \<^verbatim>\<open>99999999999\<close> is an integer, yet the process exits with
  \<^verbatim>\<open>EINVAL\<close> (22).
\<close>

theorem timeout_minus_5s_accepted:
  "\<not> integer_string ''-5s'' \<and>
   getopt_long [''-t'', ''-5s'', ''/mnt/nfs''] = ([(CHR ''t'', Some ''-5s'')], [''/mnt/nfs'']) \<and>
   main linux_lp64 healthy_os [(CHR ''t'', Some ''-5s'')] [''/mnt/nfs''] [WaitOk (Exited 0)]
     initial_world =
     Some (Exit 0, initial_world\<lparr>child := 4242,
       trace := [Geteuid, Sigaction, Fork, Alarm (- 5), Waitpid 4242, Alarm 0]\<rparr>) \<and>
   integer_string ''99999999999'' \<and>
   getopt_long [''-t'', ''99999999999'', ''/mnt/nfs''] =
     ([(CHR ''t'', Some ''99999999999'')], [''/mnt/nfs'']) \<and>
   map_option fst (main linux_lp64 healthy_os [(CHR ''t'', Some ''99999999999'')] [''/mnt/nfs'']
     [WaitOk (Exited 0)] initial_world) = Some (Exit 22)"
proof -
  have g: "getopt_long [''-t'', ''-5s'', ''/mnt/nfs''] =
      ([(CHR ''t'', Some ''-5s'')], [''/mnt/nfs''])"
    "getopt_long [''-t'', ''99999999999'', ''/mnt/nfs''] =
      ([(CHR ''t'', Some ''99999999999'')], [''/mnt/nfs''])"
    by (simp_all add: optstring_def Let_def)
  have m: "\<not> integer_string ''-5s'' \<and>
   main linux_lp64 healthy_os [(CHR ''t'', Some ''-5s'')] [''/mnt/nfs''] [WaitOk (Exited 0)]
     initial_world =
     Some (Exit 0, initial_world\<lparr>child := 4242,
       trace := [Geteuid, Sigaction, Fork, Alarm (- 5), Waitpid 4242, Alarm 0]\<rparr>) \<and>
   integer_string ''99999999999'' \<and>
   map_option fst (main linux_lp64 healthy_os [(CHR ''t'', Some ''99999999999'')] [''/mnt/nfs'']
     [WaitOk (Exited 0)] initial_world) = Some (Exit 22)"
    by (simp add: integer_string_def isdigit_def isspace_def digits_value_def main_def
        main_option_def safe_atoi_def strtol_def main_run_def default_check_method_def
        wait_for_child_def alarm_def array_load_def initial_locals_def init_exitcode_map_eq
        syscall_def healthy_os_def linux_lp64_def initial_world_def Let_def)
  from g m show ?thesis
    by blast
qed

text \<open>
  C9, amended, for the short option \<^verbatim>\<open>-t\<close>, the form of the option that is delivered with
  an argument string. On a POSIX platform, in a run that starts with \<^verbatim>\<open>errno\<close> other than
  \<^verbatim>\<open>ERANGE\<close>: the timeout is 2 when no \<^verbatim>\<open>-t\<close> is given. \<^verbatim>\<open>-t\<close> followed by a string, in
  the next element of the command line or in the rest of its own, is delivered with that
  string as its argument. The argument is accepted, with the value \<open>n\<close>, if and only if it
  begins, after optional white space, with an optionally signed decimal integer \<open>n\<close> that
  fits \<^verbatim>\<open>int\<close>; what follows the digits is ignored and \<open>n\<close> may be zero or negative.
  Otherwise, and only then, the process exits with \<^verbatim>\<open>EINVAL\<close>, and it does so before any
  call of a probe.
\<close>

theorem timeout_argument:
  assumes "posix_platform pf" and "errno w \<noteq> ERANGE pf"
    and "main_options pf opts1 initial_locals w = (Inr l1, w1)"
  shows "(CHR ''t'' \<notin> fst ` set opts1 \<longrightarrow> timeout l1 = 2) \<and>
    (\<forall>n. main_options pf (opts1 @ [(CHR ''t'', Some s)]) initial_locals w =
            (Inr (l1\<lparr>timeout := n\<rparr>), w1) \<longleftrightarrow>
          leading_integer s n \<and> INT_MIN pf \<le> n \<and> n \<le> INT_MAX pf) \<and>
    (fst (main_options pf (opts1 @ [(CHR ''t'', Some s)]) initial_locals w) = Inl (Exit (EINVAL pf)) \<longleftrightarrow>
       \<not> (\<exists>n. leading_integer s n \<and> INT_MIN pf \<le> n \<and> n \<le> INT_MAX pf)) \<and>
    (\<not> (\<exists>n. leading_integer s n \<and> INT_MIN pf \<le> n \<and> n \<le> INT_MAX pf) \<longrightarrow>
       (\<exists>w2. trace w2 = trace w \<and>
          main pf os (opts1 @ (CHR ''t'', Some s) # opts2) paths ws w =
            Some (Exit (EINVAL pf), w2))) \<and>
    getopt_long (''-t'' # s # rest) = deliver (CHR ''t'', Some s) (getopt_long rest) \<and>
    (s \<noteq> [] \<longrightarrow>
       getopt_long ((''-t'' @ s) # rest) = deliver (CHR ''t'', Some s) (getopt_long rest))"
proof -
  from main_options_errno [OF assms(3)] assms(2) have e: "errno w1 \<noteq> ERANGE pf"
    by simp
  from main_options_trace [OF assms(3)] have tr: "trace w1 = trace w" .
  obtain r w2 where sa: "safe_atoi pf (Some s) w1 = (r, w2)"
    by (cases "safe_atoi pf (Some s) w1")
  note res = safe_atoi_result [OF sa]
  have one: "main_options pf (opts1 @ [(CHR ''t'', Some s)]) initial_locals w =
      (case r of Inl h \<Rightarrow> (Inl h, w2) | Inr n \<Rightarrow> (Inr (l1\<lparr>timeout := n\<rparr>), w2))"
    by (simp add: main_options_append assms(3) main_option_def sa split: sum.splits)
  have acc: "r = Inr n \<longleftrightarrow> leading_integer s n \<and> INT_MIN pf \<le> n \<and> n \<le> INT_MAX pf" for n
  proof
    assume "r = Inr n"
    with sa safe_atoi_accepted_leading [of pf s w1 n w2]
    show "leading_integer s n \<and> INT_MIN pf \<le> n \<and> n \<le> INT_MAX pf"
      by simp
  next
    assume "leading_integer s n \<and> INT_MIN pf \<le> n \<and> n \<le> INT_MAX pf"
    with safe_atoi_of_leading [OF assms(1) e, of s n] sa show "r = Inr n"
      by simp
  qed
  have upd: "l1\<lparr>timeout := a\<rparr> = l1\<lparr>timeout := b\<rparr> \<longleftrightarrow> a = b" for a b
  proof
    assume "l1\<lparr>timeout := a\<rparr> = l1\<lparr>timeout := b\<rparr>"
    then have "timeout (l1\<lparr>timeout := a\<rparr>) = timeout (l1\<lparr>timeout := b\<rparr>)"
      by (rule arg_cong)
    then show "a = b" by simp
  qed simp
  have c1: "CHR ''t'' \<notin> fst ` set opts1 \<longrightarrow> timeout l1 = 2"
    using main_options_others [OF assms(3)] by (simp add: initial_locals_def)
  have c2: "main_options pf (opts1 @ [(CHR ''t'', Some s)]) initial_locals w =
            (Inr (l1\<lparr>timeout := n\<rparr>), w1) \<longleftrightarrow>
          leading_integer s n \<and> INT_MIN pf \<le> n \<and> n \<le> INT_MAX pf" for n
  proof (cases r)
    case (Inl h)
    with acc [of n] show ?thesis by (simp add: one)
  next
    case (Inr n')
    with res have "w2 = w1" by simp
    with Inr acc [of n] show ?thesis by (auto simp: one upd)
  qed
  have c3: "fst (main_options pf (opts1 @ [(CHR ''t'', Some s)]) initial_locals w) =
      Inl (Exit (EINVAL pf)) \<longleftrightarrow>
       \<not> (\<exists>n. leading_integer s n \<and> INT_MIN pf \<le> n \<and> n \<le> INT_MAX pf)"
  proof (cases r)
    case (Inl h)
    with res have "h = Exit (EINVAL pf)" by simp
    with Inl acc show ?thesis by (simp add: one)
  next
    case (Inr n')
    with acc [of n'] show ?thesis by (auto simp: one)
  qed
  have c4: "\<exists>w2. trace w2 = trace w \<and>
          main pf os (opts1 @ (CHR ''t'', Some s) # opts2) paths ws w = Some (Exit (EINVAL pf), w2)"
    if "\<not> (\<exists>n. leading_integer s n \<and> INT_MIN pf \<le> n \<and> n \<le> INT_MAX pf)"
  proof -
    from that acc obtain h where h: "r = Inl h"
      by (cases r) auto
    with res have "h = Exit (EINVAL pf)" "trace w2 = trace w1" by simp_all
    with h tr show ?thesis
      by (intro exI [of _ w2]) (simp add: main_def main_options_append assms(3) main_option_def sa)
  qed
  have c5: "getopt_long (''-t'' # s # rest) = deliver (CHR ''t'', Some s) (getopt_long rest)"
    using getopt_long_short_argument [of "CHR ''t''" s rest] by simp
  have c6: "getopt_long ((''-t'' @ s) # rest) = deliver (CHR ''t'', Some s) (getopt_long rest)"
    if "s \<noteq> []"
    using getopt_long_short_argument_joined [of "CHR ''t''" s rest] that by simp
  from c1 c2 c3 c4 c5 c6 show ?thesis by blast
qed

theorem timeout_argument_witness:
  "posix_platform linux_lp64 \<and> errno initial_world \<noteq> ERANGE linux_lp64 \<and>
   main_options linux_lp64 [] initial_locals initial_world = (Inr initial_locals, initial_world) \<and>
   CHR ''t'' \<notin> fst ` set [] \<and> timeout initial_locals = 2 \<and>
   leading_integer ''5'' 5 \<and> INT_MIN linux_lp64 \<le> 5 \<and> 5 \<le> INT_MAX linux_lp64 \<and>
   main_options linux_lp64 ([] @ [(CHR ''t'', Some ''5'')]) initial_locals initial_world =
     (Inr (initial_locals\<lparr>timeout := 5\<rparr>), initial_world) \<and>
   fst (main_options linux_lp64 ([] @ [(CHR ''t'', Some ''5'')]) initial_locals initial_world) \<noteq>
     Inl (Exit (EINVAL linux_lp64)) \<and>
   \<not> (\<exists>n. leading_integer ''abc'' n \<and> INT_MIN linux_lp64 \<le> n \<and> n \<le> INT_MAX linux_lp64) \<and>
   (\<exists>w2. trace w2 = trace initial_world \<and>
      main linux_lp64 healthy_os ([] @ (CHR ''t'', Some ''abc'') # []) [''/mnt/nfs''] [] initial_world =
        Some (Exit (EINVAL linux_lp64), w2)) \<and>
   ''5'' \<noteq> [] \<and>
   getopt_long ((''-t'' @ ''5'') # [''/mnt/nfs'']) =
     deliver (CHR ''t'', Some ''5'') (getopt_long [''/mnt/nfs''])"
proof -
  have e: "errno initial_world \<noteq> ERANGE linux_lp64"
    by (simp add: initial_world_def linux_lp64_def)
  have o: "main_options linux_lp64 [] initial_locals initial_world =
      (Inr initial_locals, initial_world)"
    by simp
  have r: "INT_MIN linux_lp64 \<le> 5 \<and> 5 \<le> INT_MAX linux_lp64"
    by (simp add: linux_lp64_def)
  note th = timeout_argument [OF posix_platform_linux_lp64 e o, of "''5''" healthy_os "[]"
      "[''/mnt/nfs'']" "[]" "[''/mnt/nfs'']"]
  from th leading_integer_5 r
  have "main_options linux_lp64 ([] @ [(CHR ''t'', Some ''5'')]) initial_locals initial_world =
     (Inr (initial_locals\<lparr>timeout := 5\<rparr>), initial_world)"
    by blast
  moreover from th have "timeout initial_locals = 2"
    by simp
  moreover note tha = timeout_argument [OF posix_platform_linux_lp64 e o, of "''abc''" healthy_os
      "[]" "[''/mnt/nfs'']" "[]"]
  have "fst (main_options linux_lp64 ([] @ [(CHR ''t'', Some ''abc'')]) initial_locals initial_world) =
      Inl (Exit (EINVAL linux_lp64))"
    by (simp add: main_option_def safe_atoi_def strtol_def isspace_def isdigit_def Let_def)
  with tha have n: "\<not> (\<exists>n. leading_integer ''abc'' n \<and> INT_MIN linux_lp64 \<le> n \<and>
      n \<le> INT_MAX linux_lp64)"
    by blast
  moreover from tha n have "\<exists>w2. trace w2 = trace initial_world \<and>
      main linux_lp64 healthy_os ([] @ (CHR ''t'', Some ''abc'') # []) [''/mnt/nfs''] [] initial_world =
        Some (Exit (EINVAL linux_lp64), w2)"
    by blast
  moreover from th have "getopt_long ((''-t'' @ ''5'') # [''/mnt/nfs'']) =
      deliver (CHR ''t'', Some ''5'') (getopt_long [''/mnt/nfs''])"
    by blast
  ultimately show ?thesis
    using posix_platform_linux_lp64 e o r leading_integer_5 by simp
qed

section \<open>The check methods\<close>

text \<open>
  C10 as stated makes every accepted argument of \<^verbatim>\<open>-m\<close> produce a non-empty method set.
  The empty string is accepted with the empty set; the Worker of that run then makes no probe
  call at all and exits with 0.
\<close>

theorem empty_method_argument_accepted:
  "parse_check_method linux_lp64 (Some []) initial_world =
     (Inr 0, initial_world\<lparr>strtok_save := Some []\<rparr>) \<and>
   main linux_lp64 (healthy_os\<lparr>os_fork := Ok 0\<rparr>) [(CHR ''m'', Some [])] [''/mnt/nfs''] []
     initial_world =
     Some (Exit 0,
       initial_world\<lparr>trace := [Geteuid, Sigaction, Fork], strtok_save := Some []\<rparr>)"
proof -
  have p: "parse_check_method linux_lp64 (Some []) initial_world =
     (Inr 0, initial_world\<lparr>strtok_save := Some []\<rparr>)"
    by (simp add: parse_check_method_def parse_check_method_loop.simps strtok_def
        strtok_input_def)
  then show ?thesis
    by (simp add: main_def main_option_def main_run_def default_check_method_def
        check_mountpoint_def initial_locals_def syscall_def healthy_os_def initial_world_def
        Let_def)
qed

text \<open>
  C10, amended. When \<^verbatim>\<open>-m\<close> is omitted the method set is {Status, DirectoryListing}. When
  \<^verbatim>\<open>-m\<close> is supplied with an argument string, an accepted argument produces a subset of
  the two methods, which \<^verbatim>\<open>main\<close> uses as it is, and that subset is non-empty if and only
  if the argument holds a character other than the separating comma, that is, at least one
  token. A non-empty set makes \<^verbatim>\<open>check_mountpoint\<close> begin with a call of a probe, so that
  in every run in which each \<^verbatim>\<open>-m\<close> given has an argument with a token, the first call
  the Worker makes after \<^verbatim>\<open>fork\<close> is the \<^verbatim>\<open>open\<close> of the status probe or the
  \<^verbatim>\<open>opendir\<close> of the directory-listing probe.
\<close>

theorem check_method_selection:
  "(main_options pf opts initial_locals w = (Inr l, w') \<and> CHR ''m'' \<notin> fst ` set opts \<longrightarrow>
      check_method (default_check_method l) = CHECK_METHOD_STAT OR CHECK_METHOD_READDIR \<and>
      check_method (default_check_method l) = 3) \<and>
   (parse_check_method pf (Some s) w = (Inr m, w') \<longrightarrow>
      (m = 0 \<or> m = CHECK_METHOD_STAT \<or> m = CHECK_METHOD_READDIR \<or>
       m = CHECK_METHOD_STAT OR CHECK_METHOD_READDIR) \<and>
      (m \<noteq> 0 \<longleftrightarrow> (\<exists>c\<in>set s. c \<noteq> CHR '','')) \<and>
      main_option pf (CHR ''m'', Some s) l w =
        (Inr (l\<lparr>check_method_set := 1, check_method := m\<rparr>), w') \<and>
      check_method (default_check_method (l\<lparr>check_method_set := 1, check_method := m\<rparr>)) = m) \<and>
   (m = CHECK_METHOD_STAT \<or> m = CHECK_METHOD_READDIR \<or>
    m = CHECK_METHOD_STAT OR CHECK_METHOD_READDIR \<longrightarrow>
      (\<exists>c cs. trace (snd (check_mountpoint os path m w)) = trace w @ c # cs \<and>
         (c = Open path \<or> c = Opendir path))) \<and>
   (main_options pf opts initial_locals w = (Inr l, w') \<and>
    (\<forall>a. (CHR ''m'', a) \<in> set opts \<longrightarrow> (\<exists>s. a = Some s \<and> (\<exists>c\<in>set s. c \<noteq> CHR '',''))) \<and>
    os_geteuid os \<le> 0 \<and> succeeded (os_sigaction os) \<and> os_fork os = Ok 0 \<longrightarrow>
      check_method (default_check_method l) \<noteq> 0 \<and>
      (\<exists>ret w'' c cs. main pf os opts [path] ws w = Some (Exit ret, w'') \<and>
         trace w'' = trace w @ [Geteuid, Sigaction, Fork] @ c # cs \<and>
         (c = Open path \<or> c = Opendir path)))"
proof (intro conjI impI)
  assume a: "main_options pf opts initial_locals w = (Inr l, w') \<and> CHR ''m'' \<notin> fst ` set opts"
  with main_options_others [of pf opts initial_locals w l w']
  have "check_method_set l = 0" "check_method l = 0"
    by (simp_all add: initial_locals_def)
  then show "check_method (default_check_method l) = CHECK_METHOD_STAT OR CHECK_METHOD_READDIR"
    and "check_method (default_check_method l) = 3"
    by (simp_all add: default_check_method_def CHECK_METHOD_STAT_def CHECK_METHOD_READDIR_def)
next
  assume a: "parse_check_method pf (Some s) w = (Inr m, w')"
  then have l: "parse_check_method_loop pf (Some s) 0 w = (Inr m, w')"
    by (simp add: parse_check_method_def)
  from parse_check_method_loop_mask [OF l, of s] obtain b where
    b: "b = 0 \<or> b = 1 \<or> b = 2 \<or> b = 3" "m = b" "b \<noteq> 0 \<longleftrightarrow> (\<exists>c\<in>set s. c \<noteq> CHR '','')"
    by (auto simp: strtok_input_def)
  from b(1,2) show "m = 0 \<or> m = CHECK_METHOD_STAT \<or> m = CHECK_METHOD_READDIR \<or>
       m = CHECK_METHOD_STAT OR CHECK_METHOD_READDIR"
    by (auto simp: CHECK_METHOD_STAT_def CHECK_METHOD_READDIR_def)
  from b(2,3) show "m \<noteq> 0 \<longleftrightarrow> (\<exists>c\<in>set s. c \<noteq> CHR '','')"
    by simp
  from a show "main_option pf (CHR ''m'', Some s) l w =
      (Inr (l\<lparr>check_method_set := 1, check_method := m\<rparr>), w')"
    by (simp add: main_option_def)
  show "check_method (default_check_method (l\<lparr>check_method_set := 1, check_method := m\<rparr>)) = m"
    by (simp add: default_check_method_def)
next
  assume "m = CHECK_METHOD_STAT \<or> m = CHECK_METHOD_READDIR \<or>
    m = CHECK_METHOD_STAT OR CHECK_METHOD_READDIR"
  then have "m = 1 \<or> m = 2 \<or> m = 3"
    by (auto simp: CHECK_METHOD_STAT_def CHECK_METHOD_READDIR_def)
  then show "\<exists>c cs. trace (snd (check_mountpoint os path m w)) = trace w @ c # cs \<and>
         (c = Open path \<or> c = Opendir path)"
    by (rule check_mountpoint_probes)
next
  assume a: "main_options pf opts initial_locals w = (Inr l, w') \<and>
    (\<forall>a. (CHR ''m'', a) \<in> set opts \<longrightarrow> (\<exists>s. a = Some s \<and> (\<exists>c\<in>set s. c \<noteq> CHR '',''))) \<and>
    os_geteuid os \<le> 0 \<and> succeeded (os_sigaction os) \<and> os_fork os = Ok 0"
  then have o: "main_options pf opts initial_locals w = (Inr l, w')"
    and tk: "\<forall>a. (CHR ''m'', a) \<in> set opts \<longrightarrow> (\<exists>s. a = Some s \<and> (\<exists>c\<in>set s. c \<noteq> CHR '',''))"
    and os: "os_geteuid os \<le> 0" "succeeded (os_sigaction os)" "os_fork os = Ok 0"
    by simp_all
  have "check_method (default_check_method initial_locals) = 1 \<or>
      check_method (default_check_method initial_locals) = 2 \<or>
      check_method (default_check_method initial_locals) = 3"
    by (simp add: initial_locals_method)
  from main_options_method [OF o tk this]
  have m: "check_method (default_check_method l) = 1 \<or>
      check_method (default_check_method l) = 2 \<or> check_method (default_check_method l) = 3" .
  then show "check_method (default_check_method l) \<noteq> 0"
    by auto
  from worker_run [OF o os, of path ws] obtain w4 where
    w4: "trace w4 = trace w @ [Geteuid, Sigaction, Fork]"
    and r: "main pf os opts [path] ws w =
      Some (Exit (fst (check_mountpoint os path (check_method (default_check_method l)) w4)),
            snd (check_mountpoint os path (check_method (default_check_method l)) w4))"
    by blast
  from check_mountpoint_probes [OF m, of os path w4] obtain c cs where
    "trace (snd (check_mountpoint os path (check_method (default_check_method l)) w4)) =
       trace w4 @ c # cs" "c = Open path \<or> c = Opendir path"
    by blast
  with w4 r show "\<exists>ret w'' c cs. main pf os opts [path] ws w = Some (Exit ret, w'') \<and>
         trace w'' = trace w @ [Geteuid, Sigaction, Fork] @ c # cs \<and>
         (c = Open path \<or> c = Opendir path)"
    by auto
qed

theorem check_method_selection_witness:
  "main_options linux_lp64 [(CHR ''t'', Some ''5'')] initial_locals initial_world =
     (Inr (initial_locals\<lparr>timeout := 5\<rparr>), initial_world) \<and>
   CHR ''m'' \<notin> fst ` set [(CHR ''t'', Some ''5'')] \<and>
   check_method (default_check_method (initial_locals\<lparr>timeout := 5\<rparr>)) = 3 \<and>
   parse_check_method linux_lp64 (Some ''ReadDir,,stat'') initial_world =
     (Inr 3, initial_world\<lparr>strtok_save := Some []\<rparr>) \<and>
   (\<exists>c\<in>set ''ReadDir,,stat''. c \<noteq> CHR '','') \<and>
   main_option linux_lp64 (CHR ''m'', Some ''ReadDir,,stat'') (initial_locals\<lparr>timeout := 5\<rparr>)
     initial_world =
     (Inr (initial_locals\<lparr>timeout := 5, check_method_set := 1, check_method := 3\<rparr>),
      initial_world\<lparr>strtok_save := Some []\<rparr>) \<and>
   (3 = CHECK_METHOD_STAT \<or> 3 = CHECK_METHOD_READDIR \<or>
    3 = CHECK_METHOD_STAT OR CHECK_METHOD_READDIR) \<and>
   (\<exists>c cs. trace (snd (check_mountpoint healthy_os ''/mnt/nfs'' 3 initial_world)) =
      trace initial_world @ c # cs \<and> (c = Open ''/mnt/nfs'' \<or> c = Opendir ''/mnt/nfs'')) \<and>
   main_options linux_lp64 [(CHR ''m'', Some ''readdir'')] initial_locals initial_world =
     (Inr (initial_locals\<lparr>check_method_set := 1, check_method := 2\<rparr>),
      initial_world\<lparr>strtok_save := Some []\<rparr>) \<and>
   (\<exists>c\<in>set ''readdir''. c \<noteq> CHR '','') \<and>
   os_geteuid (healthy_os\<lparr>os_fork := Ok 0\<rparr>) \<le> 0 \<and>
   succeeded (os_sigaction (healthy_os\<lparr>os_fork := Ok 0\<rparr>)) \<and>
   os_fork (healthy_os\<lparr>os_fork := Ok 0\<rparr>) = Ok 0 \<and>
   (\<exists>ret w'' c cs.
      main linux_lp64 (healthy_os\<lparr>os_fork := Ok 0\<rparr>) [(CHR ''m'', Some ''readdir'')]
        [''/mnt/nfs''] [] initial_world = Some (Exit ret, w'') \<and>
      trace w'' = trace initial_world @ [Geteuid, Sigaction, Fork] @ c # cs \<and>
      (c = Open ''/mnt/nfs'' \<or> c = Opendir ''/mnt/nfs''))"
proof -
  have o: "main_options linux_lp64 [(CHR ''t'', Some ''5'')] initial_locals initial_world =
     (Inr (initial_locals\<lparr>timeout := 5\<rparr>), initial_world)"
    by (simp add: main_option_def safe_atoi_def strtol_def isspace_def isdigit_def
        digits_value_def linux_lp64_def initial_world_def Let_def)
  have n: "CHR ''m'' \<notin> fst ` set [(CHR ''t'', Some ''5'')]"
    by simp
  have p: "parse_check_method linux_lp64 (Some ''ReadDir,,stat'') initial_world =
      (Inr 3, initial_world\<lparr>strtok_save := Some []\<rparr>)"
    by (simp add: parse_check_method_def parse_check_method_loop.simps strtok_def
        strtok_input_def tolower_def CHECK_METHOD_STAT_def CHECK_METHOD_READDIR_def)
  have q: "main_options linux_lp64 [(CHR ''m'', Some ''readdir'')] initial_locals initial_world =
     (Inr (initial_locals\<lparr>check_method_set := 1, check_method := 2\<rparr>),
      initial_world\<lparr>strtok_save := Some []\<rparr>)"
    by (simp add: main_option_def parse_check_method_def parse_check_method_loop.simps
        strtok_def strtok_input_def tolower_def CHECK_METHOD_STAT_def CHECK_METHOD_READDIR_def)
  have tk: "\<forall>a. (CHR ''m'', a) \<in> set [(CHR ''m'', Some ''readdir'')] \<longrightarrow>
      (\<exists>s. a = Some s \<and> (\<exists>c\<in>set s. c \<noteq> CHR '',''))"
    by simp
  have three: "3 = CHECK_METHOD_STAT \<or> 3 = CHECK_METHOD_READDIR \<or>
    3 = CHECK_METHOD_STAT OR CHECK_METHOD_READDIR"
    by (simp add: CHECK_METHOD_STAT_def CHECK_METHOD_READDIR_def)
  note th = check_method_selection [of linux_lp64 "[(CHR ''t'', Some ''5'')]" initial_world
      "initial_locals\<lparr>timeout := 5\<rparr>" initial_world "''ReadDir,,stat''" 3 healthy_os
      "''/mnt/nfs''"]
  note th1 = th [THEN conjunct1, rule_format]
  note th3 = th [THEN conjunct2, THEN conjunct2, THEN conjunct1, rule_format, OF three]
  from th1 o n have d: "check_method (default_check_method (initial_locals\<lparr>timeout := 5\<rparr>)) = 3"
    by blast
  have mo: "main_option linux_lp64 (CHR ''m'', Some ''ReadDir,,stat'')
      (initial_locals\<lparr>timeout := 5\<rparr>) initial_world =
     (Inr (initial_locals\<lparr>timeout := 5, check_method_set := 1, check_method := 3\<rparr>),
      initial_world\<lparr>strtok_save := Some []\<rparr>)"
    using p by (simp add: main_option_def)
  have os: "os_geteuid (healthy_os\<lparr>os_fork := Ok 0\<rparr>) \<le> 0"
    "succeeded (os_sigaction (healthy_os\<lparr>os_fork := Ok 0\<rparr>))"
    "os_fork (healthy_os\<lparr>os_fork := Ok 0\<rparr>) = Ok 0"
    by (simp_all add: healthy_os_def succeeded_def)
  note th4 = check_method_selection [of linux_lp64 "[(CHR ''m'', Some ''readdir'')]"
      initial_world "initial_locals\<lparr>check_method_set := 1, check_method := 2\<rparr>"
      "initial_world\<lparr>strtok_save := Some []\<rparr>" "[]" 0 "healthy_os\<lparr>os_fork := Ok 0\<rparr>"
      "''/mnt/nfs''" "[]", THEN conjunct2, THEN conjunct2, THEN conjunct2, rule_format]
  from th4 q tk os have run: "\<exists>ret w'' c cs.
      main linux_lp64 (healthy_os\<lparr>os_fork := Ok 0\<rparr>) [(CHR ''m'', Some ''readdir'')]
        [''/mnt/nfs''] [] initial_world = Some (Exit ret, w'') \<and>
      trace w'' = trace initial_world @ [Geteuid, Sigaction, Fork] @ c # cs \<and>
      (c = Open ''/mnt/nfs'' \<or> c = Opendir ''/mnt/nfs'')"
    by blast
  from o n d p mo three th3 q os run show ?thesis
    by simp
qed

end
